theory Spec2Isabelle
  imports Main
begin

section \<open>Python values on a heap\<close>

text \<open>
  The validators work on the value trees that \<open>json.load\<close> produces: \<open>None\<close>, booleans,
  integers, floats and strings are immutable, dictionaries and lists are mutable objects that
  are passed by reference. Both validators mutate such objects in place
  (\<open>schema.setdefault\<close>, \<open>instance.pop\<close>, \<open>obj[k] = v\<close>), so dictionaries and lists live
  in an explicit store and a value refers to them by address. A dictionary keeps its keys in
  insertion order; its keys are strings, as in parsed JSON.

  A float is kept as the bit pattern of its IEEE double: no arithmetic on floats is modelled.
\<close>

datatype pyfloat = Float64 nat

type_synonym addr = nat

datatype val = VNone | VBool bool | VInt int | VFloat pyfloat | VStr string | VRef addr

datatype obj = ODict "(string \<times> val) list" | OList "val list"

type_synonym pyheap = "obj list"

text \<open>A parsed JSON document before it is loaded into the store.\<close>

datatype json =
    JNull | JBool bool | JInt int | JFloat pyfloat | JStr string
  | JArr "json list" | JObj "(string \<times> json) list"

subsection \<open>Dictionary operations (insertion ordered)\<close>

definition dict_get :: "(string \<times> 'a) list \<Rightarrow> string \<Rightarrow> 'a option" where
  "dict_get kvs k = map_of kvs k"

definition dict_has :: "(string \<times> 'a) list \<Rightarrow> string \<Rightarrow> bool" where
  "dict_has kvs k = (map_of kvs k \<noteq> None)"

text \<open>\<open>d[k] = v\<close>: an existing key keeps its position, a new key goes to the end.\<close>

fun dict_set :: "(string \<times> 'a) list \<Rightarrow> string \<Rightarrow> 'a \<Rightarrow> (string \<times> 'a) list" where
  "dict_set [] k v = [(k, v)]"
| "dict_set ((k', v') # kvs) k v =
     (if k' = k then (k, v) # kvs else (k', v') # dict_set kvs k v)"

text \<open>\<open>del d[k]\<close> and \<open>d.pop(k)\<close> on a present key.\<close>

definition dict_del :: "(string \<times> 'a) list \<Rightarrow> string \<Rightarrow> (string \<times> 'a) list" where
  "dict_del kvs k = filter (\<lambda>kv. fst kv \<noteq> k) kvs"

text \<open>\<open>d.update(other)\<close>: every entry of \<open>other\<close> is stored with \<open>d[k] = v\<close>, in order.\<close>

definition dict_update :: "(string \<times> 'a) list \<Rightarrow> (string \<times> 'a) list \<Rightarrow> (string \<times> 'a) list" where
  "dict_update kvs other = foldl (\<lambda>d kv. dict_set d (fst kv) (snd kv)) kvs other"

subsection \<open>Loading a JSON document into the store\<close>

text \<open>
  \<open>json.load\<close> builds fresh objects, children before their parent; a repeated key keeps its
  first position and its last value.
\<close>

fun load :: "json \<Rightarrow> pyheap \<Rightarrow> val \<times> pyheap"
  and load_list :: "json list \<Rightarrow> pyheap \<Rightarrow> val list \<times> pyheap"
  and load_fields :: "(string \<times> json) list \<Rightarrow> pyheap \<Rightarrow> (string \<times> val) list \<times> pyheap"
where
  "load JNull h = (VNone, h)"
| "load (JBool b) h = (VBool b, h)"
| "load (JInt i) h = (VInt i, h)"
| "load (JFloat f) h = (VFloat f, h)"
| "load (JStr s) h = (VStr s, h)"
| "load (JArr xs) h =
     (case load_list xs h of (vs, h') \<Rightarrow> (VRef (length h'), h' @ [OList vs]))"
| "load (JObj kvs) h =
     (case load_fields kvs h of (fs, h') \<Rightarrow> (VRef (length h'), h' @ [ODict (dict_update [] fs)]))"
| "load_list [] h = ([], h)"
| "load_list (x # xs) h =
     (case load x h of (v, h') \<Rightarrow>
        (case load_list xs h' of (vs, h'') \<Rightarrow> (v # vs, h'')))"
| "load_fields [] h = ([], h)"
| "load_fields (kx # kvs) h =
     (case load (snd kx) h of (v, h') \<Rightarrow>
        (case load_fields kvs h' of (fs, h'') \<Rightarrow> ((fst kx, v) # fs, h'')))"

subsection \<open>Python's built-in operations on values\<close>

definition obj_at :: "pyheap \<Rightarrow> val \<Rightarrow> obj option" where
  "obj_at h v = (case v of VRef a \<Rightarrow> (if a < length h then Some (h ! a) else None) | _ \<Rightarrow> None)"

text \<open>\<open>isinstance(v, dict)\<close> together with the entries, and the same for \<open>list\<close>.\<close>

definition dict_at :: "pyheap \<Rightarrow> val \<Rightarrow> (string \<times> val) list option" where
  "dict_at h v = (case obj_at h v of Some (ODict kvs) \<Rightarrow> Some kvs | _ \<Rightarrow> None)"

definition list_at :: "pyheap \<Rightarrow> val \<Rightarrow> val list option" where
  "list_at h v = (case obj_at h v of Some (OList xs) \<Rightarrow> Some xs | _ \<Rightarrow> None)"

definition is_dict :: "pyheap \<Rightarrow> val \<Rightarrow> bool" where
  "is_dict h v = (dict_at h v \<noteq> None)"

definition is_list :: "pyheap \<Rightarrow> val \<Rightarrow> bool" where
  "is_list h v = (list_at h v \<noteq> None)"

text \<open>\<open>isinstance(v, str)\<close>, \<open>isinstance(v, bool)\<close>, \<open>isinstance(v, int)\<close> (in Python
  \<open>bool\<close> is a subclass of \<open>int\<close>) and \<open>isinstance(v, (int, float))\<close>.\<close>

definition is_str :: "val \<Rightarrow> bool" where
  "is_str v = (case v of VStr _ \<Rightarrow> True | _ \<Rightarrow> False)"

definition is_bool :: "val \<Rightarrow> bool" where
  "is_bool v = (case v of VBool _ \<Rightarrow> True | _ \<Rightarrow> False)"

definition is_int :: "val \<Rightarrow> bool" where
  "is_int v = (case v of VInt _ \<Rightarrow> True | VBool _ \<Rightarrow> True | _ \<Rightarrow> False)"

definition is_int_or_float :: "val \<Rightarrow> bool" where
  "is_int_or_float v = (case v of VInt _ \<Rightarrow> True | VBool _ \<Rightarrow> True | VFloat _ \<Rightarrow> True | _ \<Rightarrow> False)"

text \<open>The integer an \<open>int\<close> instance stands for: \<open>True\<close> is 1 and \<open>False\<close> is 0.\<close>

definition int_value :: "val \<Rightarrow> int" where
  "int_value v = (case v of VInt i \<Rightarrow> i | VBool b \<Rightarrow> (if b then 1 else 0) | _ \<Rightarrow> 0)"

text \<open>\<open>type(v).__name__\<close>, used in diagnostics only.\<close>

definition type_name :: "pyheap \<Rightarrow> val \<Rightarrow> string" where
  "type_name h v =
     (case v of
        VNone \<Rightarrow> ''NoneType'' | VBool _ \<Rightarrow> ''bool'' | VInt _ \<Rightarrow> ''int''
      | VFloat _ \<Rightarrow> ''float'' | VStr _ \<Rightarrow> ''str''
      | VRef _ \<Rightarrow> (case obj_at h v of Some (OList _) \<Rightarrow> ''list'' | _ \<Rightarrow> ''dict''))"

definition starts_with :: "string \<Rightarrow> string \<Rightarrow> bool" where
  "starts_with k s = (take (length k) s = k)"

text \<open>\<open>k in s\<close> for two strings: \<open>k\<close> occurs in \<open>s\<close> as a substring.\<close>

fun is_substring :: "string \<Rightarrow> string \<Rightarrow> bool" where
  "is_substring k [] = (k = [])"
| "is_substring k (x # xs) = (starts_with k (x # xs) \<or> is_substring k xs)"

text \<open>
  \<open>k in c\<close> for a string \<open>k\<close>: a key of a dictionary, an element of a list, a substring of a
  string; \<open>None\<close> is the \<open>TypeError\<close> that every other value raises.
\<close>

definition in_str :: "pyheap \<Rightarrow> string \<Rightarrow> val \<Rightarrow> bool option" where
  "in_str h k c =
     (case c of
        VStr s \<Rightarrow> Some (is_substring k s)
      | VRef _ \<Rightarrow>
          (case obj_at h c of
             Some (ODict kvs) \<Rightarrow> Some (dict_has kvs k)
           | Some (OList xs) \<Rightarrow> Some (VStr k \<in> set xs)
           | None \<Rightarrow> None)
      | _ \<Rightarrow> None)"

text \<open>\<open>c[k]\<close> for a string \<open>k\<close>: only a dictionary holding the key has an answer.\<close>

definition getitem_str :: "pyheap \<Rightarrow> val \<Rightarrow> string \<Rightarrow> val option" where
  "getitem_str h c k = (case dict_at h c of Some kvs \<Rightarrow> dict_get kvs k | None \<Rightarrow> None)"

text \<open>\<open>for x in c\<close>: the elements of a list, the keys of a dictionary, the characters of a
  string; \<open>None\<close> is the \<open>TypeError\<close> of a value that cannot be iterated.\<close>

definition py_iter :: "pyheap \<Rightarrow> val \<Rightarrow> val list option" where
  "py_iter h c =
     (case c of
        VStr s \<Rightarrow> Some (map (\<lambda>ch. VStr [ch]) s)
      | VRef _ \<Rightarrow>
          (case obj_at h c of
             Some (ODict kvs) \<Rightarrow> Some (map (\<lambda>kv. VStr (fst kv)) kvs)
           | Some (OList xs) \<Rightarrow> Some xs
           | None \<Rightarrow> None)
      | _ \<Rightarrow> None)"

definition py_len :: "pyheap \<Rightarrow> val \<Rightarrow> nat option" where
  "py_len h c =
     (case c of
        VStr s \<Rightarrow> Some (length s)
      | VRef _ \<Rightarrow>
          (case obj_at h c of
             Some (ODict kvs) \<Rightarrow> Some (length kvs)
           | Some (OList xs) \<Rightarrow> Some (length xs)
           | None \<Rightarrow> None)
      | _ \<Rightarrow> None)"

subsection \<open>Strings\<close>

text \<open>\<open>s.split(c)\<close> for a one-character separator: one more part than separators.\<close>

fun split_on :: "char \<Rightarrow> string \<Rightarrow> string list" where
  "split_on c [] = [[]]"
| "split_on c (x # xs) =
     (if x = c then [] # split_on c xs
      else (case split_on c xs of p # ps \<Rightarrow> (x # p) # ps | [] \<Rightarrow> [[x]]))"

text \<open>\<open>s.replace(old, new)\<close> for a two-character \<open>old = [a, b]\<close>: leftmost occurrences,
  not overlapping.\<close>

fun replace2 :: "char \<Rightarrow> char \<Rightarrow> string \<Rightarrow> string \<Rightarrow> string" where
  "replace2 a b new (x # y # zs) =
     (if x = a \<and> y = b then new @ replace2 a b new zs else x # replace2 a b new (y # zs))"
| "replace2 a b new xs = xs"

text \<open>\<open>part.replace("~1", "/").replace("~0", "~")\<close>.\<close>

definition unescape :: "string \<Rightarrow> string" where
  "unescape part = replace2 (CHR ''~'') (CHR ''0'') ''~'' (replace2 (CHR ''~'') (CHR ''1'') ''/'' part)"

text \<open>\<open>str(n)\<close> for a natural number, used in paths.\<close>

fun show_nat :: "nat \<Rightarrow> string" where
  "show_nat n = (if n < 10 then [''0123456789'' ! n] else show_nat (n div 10) @ [''0123456789'' ! (n mod 10)])"

declare show_nat.simps [simp del]

section \<open>Diagnostics, validator state and outcomes\<close>

text \<open>
  A diagnostic \<open>Diag m vs path\<close> stands for the message of the source that starts with the
  words \<open>m\<close>, formatted from the values \<open>vs\<close> and the path; the messages that carry
  counts or the diagnostics of trial branches have constructors of their own. The exact text
  of a message is not modelled.
\<close>

datatype diag =
    Diag string "val list" string
  | TupleLength string nat nat
  | UnionMismatch string "diag list"
  | AnyOfFailed string "(nat \<times> diag list) list"
  | OneOfFailed string nat "(nat \<times> diag list) list"

text \<open>The mutable state of a validator: the store and \<open>self.errors\<close>.\<close>

record vstate =
  heap :: pyheap
  errors :: "diag list"

text \<open>
  How a Python call ends: it returns (\<open>Ok\<close>), it raises an exception with the state as it is
  at that moment (\<open>re.error\<close> is told apart because the source catches it), it does not
  return within the given recursion depth (\<open>OutOfFuel\<close>), or it goes on in a way this
  embedding does not follow (\<open>Unsupported\<close>: a dictionary with a key that is not a string,
  or a container that is modified while a loop runs over it).
\<close>

datatype pyexn = ReError | PyError

datatype 'a res = Ok 'a vstate | Raise pyexn vstate | OutOfFuel | Unsupported

type_synonym 'a M = "vstate \<Rightarrow> 'a res"

definition ret :: "'a \<Rightarrow> 'a M" where
  "ret x s = Ok x s"

definition bnd :: "'a M \<Rightarrow> ('a \<Rightarrow> 'b M) \<Rightarrow> 'b M" where
  "bnd m f s =
     (case m s of
        Ok x s' \<Rightarrow> f x s'
      | Raise e s' \<Rightarrow> Raise e s'
      | OutOfFuel \<Rightarrow> OutOfFuel
      | Unsupported \<Rightarrow> Unsupported)"

definition seq :: "unit M \<Rightarrow> 'b M \<Rightarrow> 'b M" where
  "seq m k = bnd m (\<lambda>_. k)"

definition raise :: "'a M" where
  "raise s = Raise PyError s"

definition unsupported :: "'a M" where
  "unsupported s = Unsupported"

text \<open>A partial operation on the current store: \<open>None\<close> raises.\<close>

definition eval :: "(pyheap \<Rightarrow> 'a option) \<Rightarrow> 'a M" where
  "eval f s = (case f (heap s) of Some x \<Rightarrow> Ok x s | None \<Rightarrow> Raise PyError s)"

definition peek :: "(pyheap \<Rightarrow> 'a) \<Rightarrow> 'a M" where
  "peek f s = Ok (f (heap s)) s"

text \<open>\<open>self.errors.append(d)\<close>.\<close>

definition emit :: "diag \<Rightarrow> unit M" where
  "emit d s = Ok () (s\<lparr>errors := errors s @ [d]\<rparr>)"

definition get_errors :: "diag list M" where
  "get_errors s = Ok (errors s) s"

definition set_errors :: "diag list \<Rightarrow> unit M" where
  "set_errors es s = Ok () (s\<lparr>errors := es\<rparr>)"

text \<open>A new object; its address is the next free one.\<close>

definition alloc :: "obj \<Rightarrow> val M" where
  "alloc ob s = Ok (VRef (length (heap s))) (s\<lparr>heap := heap s @ [ob]\<rparr>)"

text \<open>Overwrite the dictionary (the list) a value refers to; no other value has the
  methods that do so (\<open>AttributeError\<close>).\<close>

definition store_dict :: "val \<Rightarrow> (string \<times> val) list \<Rightarrow> unit M" where
  "store_dict v kvs s =
     (case v of
        VRef a \<Rightarrow>
          (if dict_at (heap s) v \<noteq> None then Ok () (s\<lparr>heap := (heap s)[a := ODict kvs]\<rparr>)
           else Raise PyError s)
      | _ \<Rightarrow> Raise PyError s)"

definition store_list :: "val \<Rightarrow> val list \<Rightarrow> unit M" where
  "store_list v xs s =
     (case v of
        VRef a \<Rightarrow>
          (if list_at (heap s) v \<noteq> None then Ok () (s\<lparr>heap := (heap s)[a := OList xs]\<rparr>)
           else Raise PyError s)
      | _ \<Rightarrow> Raise PyError s)"

text \<open>A \<open>for\<close> loop over values that are already at hand.\<close>

primrec for_each :: "'a list \<Rightarrow> ('a \<Rightarrow> unit M) \<Rightarrow> unit M" where
  "for_each [] body = ret ()"
| "for_each (x # xs) body = bnd (body x) (\<lambda>_. for_each xs body)"

text \<open>
  Python reads a container while it iterates over it. A loop of the model runs over the
  elements found when the loop starts and checks after every pass that the container is
  still the same object with the same content; if it is not, the model stops with
  \<open>Unsupported\<close>.
\<close>

definition same_containers :: "(val \<times> obj option) list \<Rightarrow> unit M" where
  "same_containers cs s =
     (if list_all (\<lambda>c. obj_at (heap s) (fst c) = snd c) cs then Ok () s else Unsupported)"

definition snapshot :: "val list \<Rightarrow> vstate \<Rightarrow> (val \<times> obj option) list" where
  "snapshot cs s = map (\<lambda>c. (c, obj_at (heap s) c)) cs"

definition for_guarded :: "val list \<Rightarrow> 'a list \<Rightarrow> ('a \<Rightarrow> unit M) \<Rightarrow> unit M" where
  "for_guarded cs xs body s =
     for_each xs (\<lambda>x. seq (body x) (same_containers (snapshot cs s))) s"

section \<open>The pointer resolvers\<close>

text \<open>
  \<open>JSONStructureInstanceValidator._resolve_ref\<close>: the loop over the parts of
  \<open>ref.lstrip("#").split("/")\<close>; an empty part is skipped.
\<close>

fun resolve_parts :: "pyheap \<Rightarrow> val \<Rightarrow> string list \<Rightarrow> val" where
  "resolve_parts h target [] = target"
| "resolve_parts h target (part # parts) =
     (if part = [] then resolve_parts h target parts
      else (case dict_at h target of
              Some kvs \<Rightarrow>
                (case dict_get kvs (unescape part) of
                   Some v \<Rightarrow> resolve_parts h v parts
                 | None \<Rightarrow> VNone)
            | None \<Rightarrow> VNone))"

text \<open>The result \<open>VNone\<close> is Python's \<open>return None\<close>; a pointer to a JSON \<open>null\<close> gives the
  same value.\<close>

definition resolve_ref :: "pyheap \<Rightarrow> val \<Rightarrow> string \<Rightarrow> val" where
  "resolve_ref h root ref =
     (if \<not> starts_with ''#'' ref then VNone
      else resolve_parts h root (split_on (CHR ''/'') (dropWhile (\<lambda>c. c = CHR ''#'') ref)))"

text \<open>\<open>self._resolve_ref(ref)\<close> on any value: \<open>ref.startswith\<close> exists for strings only.\<close>

definition resolve_ref_val :: "val \<Rightarrow> val \<Rightarrow> val M" where
  "resolve_ref_val root ref =
     (case ref of VStr r \<Rightarrow> peek (\<lambda>h. resolve_ref h root r) | _ \<Rightarrow> raise)"

text \<open>
  \<open>JSONStructureSchemaCoreValidator._check_json_pointer\<close>: the diagnostics it adds. The
  loop runs over \<open>pointer.split("/")\<close> without its first part.
\<close>

fun check_parts :: "pyheap \<Rightarrow> val \<Rightarrow> string list \<Rightarrow> string \<Rightarrow> diag list" where
  "check_parts h cur [] path = []"
| "check_parts h cur (p # ps) path =
     (case dict_at h cur of
        Some kvs \<Rightarrow>
          (case dict_get kvs (unescape p) of
             Some v \<Rightarrow> check_parts h v ps path
           | None \<Rightarrow> [Diag ''JSON Pointer segment not found'' [VStr (unescape p)] path])
      | None \<Rightarrow> [Diag ''JSON Pointer segment not applicable to non-object'' [VStr (unescape p)] path])"

definition check_json_pointer :: "pyheap \<Rightarrow> val \<Rightarrow> val \<Rightarrow> string \<Rightarrow> diag list" where
  "check_json_pointer h pointer doc path =
     (case pointer of
        VStr s \<Rightarrow>
          (if \<not> starts_with ''#'' s then [Diag ''JSON Pointer must start with #'' [] path]
           else if s = ''#'' then []
           else check_parts h doc (tl (split_on (CHR ''/'') s)) path)
      | _ \<Rightarrow> [Diag ''JSON Pointer must be a string'' [] path])"

section \<open>Enabled extensions of the schema validator\<close>

definition KNOWN_EXTENSIONS :: "string set" where
  "KNOWN_EXTENSIONS =
     {''JSONStructureImport'', ''JSONStructureAlternateNames'', ''JSONStructureUnits'',
      ''JSONStructureConditionalComposition'', ''JSONStructureValidation''}"

text \<open>\<open>for ext in uses: if ext in self.KNOWN_EXTENSIONS: add\<close>; a list or a dictionary
  cannot be looked up in a set (\<open>TypeError\<close>).\<close>

fun add_used_extensions :: "val list \<Rightarrow> string set \<Rightarrow> string set option" where
  "add_used_extensions [] en = Some en"
| "add_used_extensions (ext # exts) en =
     (case ext of
        VStr e \<Rightarrow> add_used_extensions exts (if e \<in> KNOWN_EXTENSIONS then insert e en else en)
      | VRef _ \<Rightarrow> None
      | _ \<Rightarrow> add_used_extensions exts en)"

text \<open>
  \<open>JSONStructureSchemaCoreValidator._check_enabled_extensions(doc)\<close> for a dictionary
  \<open>doc\<close>: the new value of \<open>self.enabled_extensions\<close>, \<open>None\<close> when the call raises.
  \<open>a or b\<close> evaluates \<open>b\<close> only when \<open>a\<close> is false.
\<close>

definition check_enabled_extensions :: "pyheap \<Rightarrow> val \<Rightarrow> string set \<Rightarrow> string set option" where
  "check_enabled_extensions h doc enabled =
     (case dict_at h doc of
        None \<Rightarrow> None
      | Some kvs \<Rightarrow>
          (let schema_uri = (case dict_get kvs ''$schema'' of Some u \<Rightarrow> u | None \<Rightarrow> VStr []);
               uses = dict_get kvs ''$uses''
           in case in_str h ''extended'' schema_uri of
                None \<Rightarrow> None
              | Some ext \<Rightarrow>
                 (case (if ext then Some True else in_str h ''validation'' schema_uri) of
                    None \<Rightarrow> None
                  | Some either \<Rightarrow>
                     (case (if either then in_str h ''validation'' schema_uri else Some False) of
                        None \<Rightarrow> None
                      | Some validation \<Rightarrow>
                         (let en = (if validation
                                    then insert ''JSONStructureValidation''
                                           (insert ''JSONStructureConditionalComposition'' enabled)
                                    else enabled)
                          in case uses of
                               None \<Rightarrow> Some en
                             | Some u \<Rightarrow>
                                 (case list_at h u of
                                    Some exts \<Rightarrow> add_used_extensions exts en
                                  | None \<Rightarrow> Some en))))))"

section \<open>The Python runtime and library as parameters\<close>

text \<open>
  The validators call into Python's runtime and standard library: deep equality and ordering
  of arbitrary values, \<open>%\<close>, the truth value of a float, \<open>json.dumps\<close>, the \<open>re\<close> module,
  \<open>int(s)\<close>, \<open>float(s)\<close>, \<open>uuid.UUID\<close>, \<open>urlparse\<close>, and reading a file. None of this is
  code of the repository; the model takes it as a record of functions. \<open>None\<close> is the
  exception the call raises. \<open>py_eq\<close> is \<open>==\<close>; \<open>py_cmp op\<close> is the comparison written
  \<open>op\<close>; \<open>re_match name s\<close> is \<open>R.match(s)\<close> for the module's compiled pattern called
  \<open>name\<close>; \<open>re_valid p\<close> says that \<open>re.compile(p)\<close> returns, and \<open>re_search p s\<close> is
  \<open>re.compile(p).search(s)\<close> then; \<open>url_has_scheme\<close> is the truth value of
  \<open>urlparse(v).scheme\<close>.
\<close>

record pyenv =
  py_eq :: "pyheap \<Rightarrow> val \<Rightarrow> val \<Rightarrow> bool option"
  py_cmp :: "string \<Rightarrow> pyheap \<Rightarrow> val \<Rightarrow> val \<Rightarrow> bool option"
  py_mod_nonzero :: "pyheap \<Rightarrow> val \<Rightarrow> val \<Rightarrow> bool option"
  float_nonzero :: "pyfloat \<Rightarrow> bool"
  neg_inf :: pyfloat
  pos_inf :: pyfloat
  json_dumps :: "pyheap \<Rightarrow> val \<Rightarrow> string option"
  re_match :: "string \<Rightarrow> string \<Rightarrow> bool"
  re_valid :: "string \<Rightarrow> bool"
  re_search :: "string \<Rightarrow> string \<Rightarrow> bool"
  int_of_str :: "string \<Rightarrow> int option"
  float_of_str :: "string \<Rightarrow> bool"
  uuid_of_str :: "string \<Rightarrow> bool"
  url_has_scheme :: "pyheap \<Rightarrow> val \<Rightarrow> bool option"
  import_map :: "(string \<times> string) list"
  read_json_file :: "string \<Rightarrow> json option"

text \<open>\<open>bool(v)\<close>, as \<open>if v:\<close> and \<open>not v\<close> read it.\<close>

definition truthy :: "pyenv \<Rightarrow> pyheap \<Rightarrow> val \<Rightarrow> bool" where
  "truthy env h v =
     (case v of
        VNone \<Rightarrow> False
      | VBool b \<Rightarrow> b
      | VInt i \<Rightarrow> i \<noteq> 0
      | VFloat f \<Rightarrow> float_nonzero env f
      | VStr s \<Rightarrow> s \<noteq> []
      | VRef _ \<Rightarrow>
          (case obj_at h v of
             Some (ODict kvs) \<Rightarrow> kvs \<noteq> []
           | Some (OList xs) \<Rightarrow> xs \<noteq> []
           | None \<Rightarrow> True))"

text \<open>\<open>x in xs\<close> for a list: the elements are compared one after the other.\<close>

fun list_contains :: "(val \<Rightarrow> bool option) \<Rightarrow> val list \<Rightarrow> bool option" where
  "list_contains eq [] = Some False"
| "list_contains eq (e # es) =
     (case eq e of None \<Rightarrow> None | Some True \<Rightarrow> Some True | Some False \<Rightarrow> list_contains eq es)"

text \<open>A list or a dictionary cannot be a dictionary key or a set element (\<open>TypeError\<close>).\<close>

definition hashable :: "pyheap \<Rightarrow> val \<Rightarrow> bool" where
  "hashable h x = (case x of VRef _ \<Rightarrow> False | _ \<Rightarrow> True)"

text \<open>
  \<open>x in c\<close> for any two values. The keys of a dictionary are strings, so another hashable
  value is not among them.
\<close>

definition py_in :: "pyenv \<Rightarrow> pyheap \<Rightarrow> val \<Rightarrow> val \<Rightarrow> bool option" where
  "py_in env h x c =
     (case c of
        VStr s \<Rightarrow> (case x of VStr k \<Rightarrow> Some (is_substring k s) | _ \<Rightarrow> None)
      | VRef _ \<Rightarrow>
          (case obj_at h c of
             Some (ODict kvs) \<Rightarrow>
               (case x of VStr k \<Rightarrow> Some (dict_has kvs k)
                | _ \<Rightarrow> (if hashable h x then Some False else None))
           | Some (OList xs) \<Rightarrow> list_contains (py_eq env h x) xs
           | None \<Rightarrow> None)
      | _ \<Rightarrow> None)"

text \<open>\<open>x in d\<close> where \<open>d\<close> is \<open>schema.get(key, {})\<close>: \<open>None\<close> stands for the default.\<close>

definition py_in_default :: "pyenv \<Rightarrow> pyheap \<Rightarrow> val \<Rightarrow> val option \<Rightarrow> bool option" where
  "py_in_default env h x c =
     (case c of
        Some d \<Rightarrow> py_in env h x d
      | None \<Rightarrow> (if hashable h x then Some False else None))"

text \<open>\<open>c[x]\<close> for any two values; \<open>None\<close> is \<open>KeyError\<close>, \<open>IndexError\<close> or \<open>TypeError\<close>.\<close>

definition py_getitem :: "pyheap \<Rightarrow> val \<Rightarrow> val \<Rightarrow> val option" where
  "py_getitem h c x =
     (case c of
        VStr s \<Rightarrow>
          (if is_int x
           then (let i = int_value x; n = int (length s); j = (if i < 0 then i + n else i)
                 in if 0 \<le> j \<and> j < n then Some (VStr [s ! nat j]) else None)
           else None)
      | VRef _ \<Rightarrow>
          (case obj_at h c of
             Some (ODict kvs) \<Rightarrow> (case x of VStr k \<Rightarrow> dict_get kvs k | _ \<Rightarrow> None)
           | Some (OList xs) \<Rightarrow>
               (if is_int x
                then (let i = int_value x; n = int (length xs); j = (if i < 0 then i + n else i)
                      in if 0 \<le> j \<and> j < n then Some (xs ! nat j) else None)
                else None)
           | None \<Rightarrow> None)
      | _ \<Rightarrow> None)"

text \<open>
  \<open>target.update(other)\<close>, with \<open>None\<close> for an \<open>other\<close> that is the default \<open>{}\<close>. An
  \<open>other\<close> that is not a dictionary is read as a sequence of pairs: nothing happens when it
  is empty, and the model does not follow a non-empty one.
\<close>

definition update_from :: "val \<Rightarrow> val option \<Rightarrow> unit M" where
  "update_from target other =
     bnd (eval (\<lambda>h. dict_at h target)) (\<lambda>tkvs.
       (case other of
          None \<Rightarrow> ret ()
        | Some ov \<Rightarrow>
            bnd (peek (\<lambda>h. dict_at h ov)) (\<lambda>od.
              (case od of
                 Some okvs \<Rightarrow> store_dict target (dict_update tkvs okvs)
               | None \<Rightarrow>
                   bnd (eval (\<lambda>h. py_iter h ov)) (\<lambda>xs.
                     if xs = [] then ret () else unsupported)))))"

text \<open>\<open>enumerate(xs)\<close>.\<close>

definition enumerate_from0 :: "'a list \<Rightarrow> (nat \<times> 'a) list" where
  "enumerate_from0 xs = zip [0..<length xs] xs"

section \<open>Add-ins: \<open>_apply_uses\<close>\<close>

definition RESERVED_ADDINS :: "string list" where
  "RESERVED_ADDINS =
     [''JSONStructureValidation'', ''JSONStructureConditionalComposition'',
      ''JSONStructureAlternateNames'', ''JSONStructureUnits'']"

definition is_reserved :: "val \<Rightarrow> bool" where
  "is_reserved u = (case u of VStr s \<Rightarrow> s \<in> set RESERVED_ADDINS | _ \<Rightarrow> False)"

text \<open>
  The block that the three branches of \<open>_apply_uses\<close> share:
  \<^verbatim>\<open>
  addin_props = resolved.get("properties", {})
  for prop in addin_props:
      if prop in merged["properties"]:
          self.errors.append(...conflicts with existing property)
  merged["properties"].update(addin_props)
  \<close>
\<close>

definition merge_addin_props :: "pyenv \<Rightarrow> val \<Rightarrow> val \<Rightarrow> val \<Rightarrow> unit M" where
  "merge_addin_props env merged use resolved =
     bnd (eval (\<lambda>h. dict_at h resolved)) (\<lambda>rkvs.
     bnd (eval (\<lambda>h. case dict_get rkvs ''properties'' of
                       None \<Rightarrow> Some [] | Some p \<Rightarrow> py_iter h p)) (\<lambda>props.
     seq (for_each props (\<lambda>prop.
            bnd (eval (\<lambda>h. getitem_str h merged ''properties'')) (\<lambda>mp.
            bnd (eval (\<lambda>h. py_in env h prop mp)) (\<lambda>conflict.
              if conflict
              then emit (Diag ''Add-in property conflicts with existing property'' [prop, use] [])
              else ret ()))))
         (bnd (eval (\<lambda>h. getitem_str h merged ''properties'')) (\<lambda>mp.
            update_from mp (dict_get rkvs ''properties'')))))"

text \<open>\<open>if isinstance(resolved, dict): ...\<close> around that block; \<open>None\<close> is no dictionary.\<close>

definition merge_if_dict :: "pyenv \<Rightarrow> val \<Rightarrow> val \<Rightarrow> val \<Rightarrow> unit M" where
  "merge_if_dict env merged use resolved =
     bnd (peek (\<lambda>h. is_dict h resolved)) (\<lambda>d.
       if d then merge_addin_props env merged use resolved else ret ())"

text \<open>One pass of the loop over the names in \<open>$uses\<close> that are not reserved.\<close>

definition apply_use :: "pyenv \<Rightarrow> val \<Rightarrow> val option \<Rightarrow> val \<Rightarrow> val \<Rightarrow> unit M" where
  "apply_use env root offers merged use =
     bnd (eval (\<lambda>h. py_in_default env h use offers)) (\<lambda>offered.
       if \<not> offered then emit (Diag ''Add-in not offered in $offers'' [use] [])
       else
         bnd (eval (\<lambda>h. case offers of None \<Rightarrow> None | Some off \<Rightarrow> py_getitem h off use)) (\<lambda>addin.
         bnd (peek (\<lambda>h. (list_at h addin, dict_at h addin))) (\<lambda>shape.
           (case fst shape of
              Some refs \<Rightarrow>
                for_each refs (\<lambda>ref.
                  bnd (case ref of VStr r \<Rightarrow> peek (\<lambda>h. resolve_ref h root r) | _ \<Rightarrow> ret ref)
                    (merge_if_dict env merged use))
            | None \<Rightarrow>
                (case snd shape of
                   Some akvs \<Rightarrow>
                     (case dict_get akvs ''$ref'' of
                        Some r \<Rightarrow> bnd (resolve_ref_val root r) (merge_if_dict env merged use)
                      | None \<Rightarrow> merge_addin_props env merged use addin)
                 | None \<Rightarrow> emit (Diag ''Invalid add-in definition'' [use] []))))))"

text \<open>
  \<open>JSONStructureInstanceValidator._apply_uses(schema, instance)\<close>; the result is the
  effective schema. \<open>merged = dict(schema)\<close> is a new dictionary with the entries of
  \<open>schema\<close>, so \<open>merged["properties"]\<close> is the very dictionary \<open>schema["properties"]\<close>
  when the schema has one.
\<close>

definition apply_uses :: "pyenv \<Rightarrow> val \<Rightarrow> val \<Rightarrow> val \<Rightarrow> val M" where
  "apply_uses env root schema instance =
     bnd (eval (\<lambda>h. dict_at h instance)) (\<lambda>ikvs.
       (case dict_get ikvs ''$uses'' of
          None \<Rightarrow> ret schema
        | Some uses \<Rightarrow>
            bnd (peek (\<lambda>h. truthy env h uses)) (\<lambda>t.
              if \<not> t then ret schema
              else
                bnd (peek (\<lambda>h. case list_at h uses of Some us \<Rightarrow> us | None \<Rightarrow> [uses])) (\<lambda>us.
                bnd (eval (\<lambda>h. dict_at h root)) (\<lambda>rkvs.
                bnd (eval (\<lambda>h. dict_at h schema)) (\<lambda>skvs.
                bnd (alloc (ODict skvs)) (\<lambda>merged.
                seq (if dict_has skvs ''properties'' then ret ()
                     else bnd (alloc (ODict [])) (\<lambda>e.
                            store_dict merged (dict_set skvs ''properties'' e)))
                (seq (for_each (filter (\<lambda>u. \<not> is_reserved u) us)
                        (apply_use env root (dict_get rkvs ''$offers'') merged))
                     (ret merged)))))))))"

section \<open>Conditional composition: \<open>_validate_conditionals\<close>\<close>

text \<open>
  \<open>validate_instance\<close> and its helpers call each other. Every helper takes the recursive
  call as its first argument \<open>rec instance schema path\<close>; \<open>validate_instance\<close> ties the
  knot at the end.
\<close>

type_synonym validator = "val \<Rightarrow> val \<Rightarrow> string \<Rightarrow> unit M"

text \<open>
  \<^verbatim>\<open>
  for idx, subschema in enumerate(subschemas):
      backup = list(self.errors)
      self.validate_instance(instance, subschema, f"{path}/allOf[{idx}]")
      if self.errors:
          self.errors = backup + self.errors
  \<close>
\<close>

definition allof_block :: "validator \<Rightarrow> val \<Rightarrow> val \<Rightarrow> string \<Rightarrow> unit M" where
  "allof_block rec schema instance path =
     bnd (eval (\<lambda>h. getitem_str h schema ''allOf'')) (\<lambda>subs.
     bnd (eval (\<lambda>h. py_iter h subs)) (\<lambda>xs.
       for_guarded [subs] (enumerate_from0 xs) (\<lambda>x.
         bnd get_errors (\<lambda>backup.
         seq (rec instance (snd x) (path @ ''/allOf['' @ show_nat (fst x) @ '']''))
             (bnd get_errors (\<lambda>es.
                if es \<noteq> [] then set_errors (backup @ es) else ret ()))))))"

text \<open>
  The loop of \<open>anyOf\<close>. A branch that leaves the buffer empty ends the loop with \<open>break\<close>,
  before \<open>self.errors = backup\<close> is reached. The result is \<open>(valid, errors_any)\<close>.
\<close>

fun anyof_loop ::
  "validator \<Rightarrow> val \<Rightarrow> string \<Rightarrow> (val \<times> obj option) list \<Rightarrow> (nat \<times> val) list \<Rightarrow>
   (nat \<times> diag list) list \<Rightarrow> (bool \<times> (nat \<times> diag list) list) M" where
  "anyof_loop rec instance path snap [] acc = ret (False, acc)"
| "anyof_loop rec instance path snap (x # rest) acc =
     bnd get_errors (\<lambda>backup.
     seq (set_errors [])
    (seq (rec instance (snd x) (path @ ''/anyOf['' @ show_nat (fst x) @ '']''))
    (bnd get_errors (\<lambda>es.
       if es = [] then ret (True, acc)
       else seq (set_errors backup)
           (seq (same_containers snap)
                (anyof_loop rec instance path snap rest (acc @ [(fst x, es)])))))))"

definition anyof_block :: "validator \<Rightarrow> val \<Rightarrow> val \<Rightarrow> string \<Rightarrow> unit M" where
  "anyof_block rec schema instance path =
     bnd (eval (\<lambda>h. getitem_str h schema ''anyOf'')) (\<lambda>subs.
     bnd (eval (\<lambda>h. py_iter h subs)) (\<lambda>xs.
     bnd (\<lambda>s. anyof_loop rec instance path (snapshot [subs] s) (enumerate_from0 xs) [] s) (\<lambda>r.
       if \<not> fst r then emit (AnyOfFailed path (snd r)) else ret ())))"

text \<open>
  The loop of \<open>oneOf\<close>: every branch runs on an empty buffer and the buffer is restored
  after it. The result is \<open>(valid_count, errors_one)\<close>.
\<close>

fun oneof_loop ::
  "validator \<Rightarrow> val \<Rightarrow> string \<Rightarrow> (val \<times> obj option) list \<Rightarrow> (nat \<times> val) list \<Rightarrow>
   nat \<Rightarrow> (nat \<times> diag list) list \<Rightarrow> (nat \<times> (nat \<times> diag list) list) M" where
  "oneof_loop rec instance path snap [] n acc = ret (n, acc)"
| "oneof_loop rec instance path snap (x # rest) n acc =
     bnd get_errors (\<lambda>backup.
     seq (set_errors [])
    (seq (rec instance (snd x) (path @ ''/oneOf['' @ show_nat (fst x) @ '']''))
    (bnd get_errors (\<lambda>es.
     seq (set_errors backup)
    (seq (same_containers snap)
         (if es = [] then oneof_loop rec instance path snap rest (n + 1) acc
          else oneof_loop rec instance path snap rest n (acc @ [(fst x, es)])))))))"

definition oneof_block :: "validator \<Rightarrow> val \<Rightarrow> val \<Rightarrow> string \<Rightarrow> unit M" where
  "oneof_block rec schema instance path =
     bnd (eval (\<lambda>h. getitem_str h schema ''oneOf'')) (\<lambda>subs.
     bnd (eval (\<lambda>h. py_iter h subs)) (\<lambda>xs.
     bnd (\<lambda>s. oneof_loop rec instance path (snapshot [subs] s) (enumerate_from0 xs) 0 [] s) (\<lambda>r.
       if fst r \<noteq> 1 then emit (OneOfFailed path (fst r) (snd r)) else ret ())))"

definition not_block :: "validator \<Rightarrow> val \<Rightarrow> val \<Rightarrow> string \<Rightarrow> unit M" where
  "not_block rec schema instance path =
     bnd (eval (\<lambda>h. getitem_str h schema ''not'')) (\<lambda>sub.
     bnd get_errors (\<lambda>backup.
     seq (set_errors [])
    (seq (rec instance sub (path @ ''/not''))
    (bnd get_errors (\<lambda>es.
       if es = []
       then set_errors (backup @ [Diag ''Instance should not validate against not schema'' [] path])
       else set_errors backup)))))"

definition if_block :: "validator \<Rightarrow> val \<Rightarrow> val \<Rightarrow> string \<Rightarrow> unit M" where
  "if_block rec schema instance path =
     bnd get_errors (\<lambda>backup.
     seq (set_errors [])
    (bnd (eval (\<lambda>h. getitem_str h schema ''if'')) (\<lambda>sub.
     seq (rec instance sub (path @ ''/if''))
    (bnd get_errors (\<lambda>es.
     seq (set_errors backup)
    (if es = []
     then bnd (eval (\<lambda>h. in_str h ''then'' schema)) (\<lambda>present.
            if present
            then bnd (eval (\<lambda>h. getitem_str h schema ''then'')) (\<lambda>sub'.
                   rec instance sub' (path @ ''/then''))
            else ret ())
     else bnd (eval (\<lambda>h. in_str h ''else'' schema)) (\<lambda>present.
            if present
            then bnd (eval (\<lambda>h. getitem_str h schema ''else'')) (\<lambda>sub'.
                   rec instance sub' (path @ ''/else''))
            else ret ())))))))"

text \<open>One keyword of \<open>_validate_conditionals\<close>: \<open>if kw in schema: ...\<close>; the result says
  whether the keyword is there.\<close>

definition keyword_block :: "string \<Rightarrow> val \<Rightarrow> unit M \<Rightarrow> bool M" where
  "keyword_block kw schema block =
     bnd (eval (\<lambda>h. in_str h kw schema)) (\<lambda>present.
       seq (if present then block else ret ()) (ret present))"

text \<open>\<open>_validate_conditionals(schema, instance, path)\<close>; the result is \<open>hasConditionals\<close>.\<close>

definition validate_conditionals :: "validator \<Rightarrow> val \<Rightarrow> val \<Rightarrow> string \<Rightarrow> bool M" where
  "validate_conditionals rec schema instance path =
     bnd (keyword_block ''allOf'' schema (allof_block rec schema instance path)) (\<lambda>c1.
     bnd (keyword_block ''anyOf'' schema (anyof_block rec schema instance path)) (\<lambda>c2.
     bnd (keyword_block ''oneOf'' schema (oneof_block rec schema instance path)) (\<lambda>c3.
     bnd (keyword_block ''not'' schema (not_block rec schema instance path)) (\<lambda>c4.
     bnd (keyword_block ''if'' schema (if_block rec schema instance path)) (\<lambda>c5.
       ret (c1 \<or> c2 \<or> c3 \<or> c4 \<or> c5))))))"

section \<open>Type-based validation\<close>

text \<open>A type mismatch message that ends in \<open>got {type(instance).__name__}\<close>.\<close>

definition emit_got :: "string \<Rightarrow> val \<Rightarrow> string \<Rightarrow> unit M" where
  "emit_got msg instance path =
     bnd (peek (\<lambda>h. type_name h instance)) (\<lambda>t. emit (Diag msg [VStr t] path))"

definition str_of :: "val \<Rightarrow> string" where
  "str_of v = (case v of VStr s \<Rightarrow> s | _ \<Rightarrow> [])"

text \<open>The branches of the \<open>if schema_type == ...\<close> chain for the primitive types.\<close>

definition check_int_range :: "string \<Rightarrow> int \<Rightarrow> int \<Rightarrow> val \<Rightarrow> string \<Rightarrow> unit M" where
  "check_int_range name lo hi instance path =
     (if \<not> is_int instance then emit_got (''Expected '' @ name) instance path
      else if \<not> (lo \<le> int_value instance \<and> int_value instance \<le> hi)
      then emit (Diag (name @ '' value out of range'') [] path)
      else ret ())"

definition check_int_string :: "pyenv \<Rightarrow> string \<Rightarrow> int \<Rightarrow> int \<Rightarrow> val \<Rightarrow> string \<Rightarrow> unit M" where
  "check_int_string env name lo hi instance path =
     (if \<not> is_str instance then emit_got (''Expected '' @ name @ '' as string'') instance path
      else (case int_of_str env (str_of instance) of
              Some v \<Rightarrow>
                (if \<not> (lo \<le> v \<and> v \<le> hi)
                 then emit (Diag (name @ '' value out of range'') [] path)
                 else ret ())
            | None \<Rightarrow> emit (Diag (''Invalid '' @ name @ '' format'') [] path)))"

definition check_regex :: "pyenv \<Rightarrow> string \<Rightarrow> string \<Rightarrow> val \<Rightarrow> string \<Rightarrow> unit M" where
  "check_regex env name msg instance path =
     (if \<not> is_str instance \<or> \<not> re_match env name (str_of instance)
      then emit (Diag msg [] path) else ret ())"

definition PRIMITIVE_TAGS :: "string list" where
  "PRIMITIVE_TAGS =
     [''any'', ''string'', ''number'', ''boolean'', ''null'', ''int32'', ''uint32'', ''int64'',
      ''uint64'', ''float'', ''double'', ''decimal'', ''date'', ''datetime'', ''time'',
      ''duration'', ''uuid'', ''uri'', ''binary'', ''jsonpointer'']"

definition check_primitive :: "pyenv \<Rightarrow> string \<Rightarrow> val \<Rightarrow> string \<Rightarrow> unit M" where
  "check_primitive env schema_type instance path =
     (if schema_type = ''any'' then ret ()
      else if schema_type = ''string'' then
        (if \<not> is_str instance then emit_got ''Expected string'' instance path else ret ())
      else if schema_type = ''number'' then
        (if is_bool instance \<or> \<not> is_int_or_float instance
         then emit_got ''Expected number'' instance path else ret ())
      else if schema_type = ''boolean'' then
        (if \<not> is_bool instance then emit_got ''Expected boolean'' instance path else ret ())
      else if schema_type = ''null'' then
        (if instance \<noteq> VNone then emit_got ''Expected null'' instance path else ret ())
      else if schema_type = ''int32'' then
        check_int_range ''int32'' (- (2 ^ 31)) (2 ^ 31 - 1) instance path
      else if schema_type = ''uint32'' then
        check_int_range ''uint32'' 0 (2 ^ 32 - 1) instance path
      else if schema_type = ''int64'' then
        check_int_string env ''int64'' (- (2 ^ 63)) (2 ^ 63 - 1) instance path
      else if schema_type = ''uint64'' then
        check_int_string env ''uint64'' 0 (2 ^ 64 - 1) instance path
      else if schema_type = ''float'' \<or> schema_type = ''double'' then
        (if \<not> is_int_or_float instance
         then emit_got (''Expected '' @ schema_type) instance path else ret ())
      else if schema_type = ''decimal'' then
        (if \<not> is_str instance then emit_got ''Expected decimal as string'' instance path
         else if \<not> float_of_str env (str_of instance)
         then emit (Diag ''Invalid decimal format'' [] path) else ret ())
      else if schema_type = ''date'' then
        check_regex env ''_DATE_REGEX'' ''Expected date (YYYY-MM-DD)'' instance path
      else if schema_type = ''datetime'' then
        check_regex env ''_DATETIME_REGEX'' ''Expected datetime (RFC3339)'' instance path
      else if schema_type = ''time'' then
        check_regex env ''_TIME_REGEX'' ''Expected time (HH:MM:SS)'' instance path
      else if schema_type = ''duration'' then
        (if \<not> is_str instance then emit (Diag ''Expected duration as string'' [] path) else ret ())
      else if schema_type = ''uuid'' then
        (if \<not> is_str instance then emit (Diag ''Expected uuid as string'' [] path)
         else if \<not> uuid_of_str env (str_of instance)
         then emit (Diag ''Invalid uuid format'' [] path) else ret ())
      else if schema_type = ''uri'' then
        (if \<not> is_str instance then emit (Diag ''Expected uri as string'' [] path)
         else bnd (eval (\<lambda>h. url_has_scheme env h instance)) (\<lambda>ok.
                if \<not> ok then emit (Diag ''Invalid uri format'' [] path) else ret ()))
      else if schema_type = ''binary'' then
        (if \<not> is_str instance then emit (Diag ''Expected binary (base64 string)'' [] path)
         else ret ())
      else if schema_type = ''jsonpointer'' then
        check_regex env ''_JSONPOINTER_REGEX'' ''Expected JSON pointer format'' instance path
      else emit (Diag ''Unsupported type'' [VStr schema_type] path))"

subsection \<open>Objects\<close>

text \<open>
  \<^verbatim>\<open>
  for prop_name, required_deps in schema["dependentRequired"].items():
      if prop_name in instance and isinstance(required_deps, list):
          for dep in required_deps:
              if dep not in instance:
                  self.errors.append(...)
  \<close>
  The block stands twice in the source, in the branch for \<open>object\<close> and in
  \<open>_validate_validation_addins\<close>.
\<close>

definition dependent_required :: "pyenv \<Rightarrow> val \<Rightarrow> val \<Rightarrow> string \<Rightarrow> unit M" where
  "dependent_required env schema instance path =
     bnd (eval (\<lambda>h. dict_at h schema)) (\<lambda>skvs.
       (case dict_get skvs ''dependentRequired'' of
          None \<Rightarrow> ret ()
        | Some dr \<Rightarrow>
            bnd (peek (\<lambda>h. dict_at h dr)) (\<lambda>dd.
              (case dd of
                 None \<Rightarrow> ret ()
               | Some dkvs \<Rightarrow>
                   for_each dkvs (\<lambda>kv.
                     bnd (eval (\<lambda>h. py_in env h (VStr (fst kv)) instance)) (\<lambda>present.
                     bnd (peek (\<lambda>h. list_at h (snd kv))) (\<lambda>deps.
                       if present \<and> deps \<noteq> None
                       then for_each (the deps) (\<lambda>dep.
                              bnd (eval (\<lambda>h. py_in env h dep instance)) (\<lambda>there.
                                if there then ret ()
                                else emit (Diag ''Property requires dependent property''
                                             [VStr (fst kv), dep] path)))
                       else ret ())))))))"

text \<open>
  \<open>any(len(self.validate_instance(val, has_schema, f"{path}/{prop}")) == 0
       for prop, val in instance.items())\<close>: the loop stops at the first value after which
  the whole buffer is empty.
\<close>

fun has_loop ::
  "validator \<Rightarrow> val \<Rightarrow> string \<Rightarrow> (val \<times> obj option) list \<Rightarrow> (string \<times> val) list \<Rightarrow> bool M" where
  "has_loop rec has_schema path snap [] = ret False"
| "has_loop rec has_schema path snap (kv # rest) =
     seq (rec (snd kv) has_schema (path @ ''/'' @ fst kv))
         (bnd get_errors (\<lambda>es.
            if es = [] then ret True
            else seq (same_containers snap) (has_loop rec has_schema path snap rest)))"

text \<open>The branch for \<open>object\<close> once the instance is known to be a dictionary.\<close>

definition additional_properties ::
  "pyenv \<Rightarrow> validator \<Rightarrow> val \<Rightarrow> val option \<Rightarrow> val \<Rightarrow> string \<Rightarrow> unit M" where
  "additional_properties env rec schema props instance path =
     bnd (eval (\<lambda>h. dict_at h schema)) (\<lambda>skvs.
       (case dict_get skvs ''additionalProperties'' of
          None \<Rightarrow> ret ()
        | Some addl \<Rightarrow>
            bnd (eval (\<lambda>h. dict_at h instance)) (\<lambda>ikvs.
              if addl = VBool False
              then for_each (map fst ikvs) (\<lambda>key.
                     bnd (eval (\<lambda>h. py_in_default env h (VStr key) props)) (\<lambda>known.
                       if known then ret ()
                       else emit (Diag ''Additional property not allowed'' [VStr key] path)))
              else
                bnd (peek (\<lambda>h. is_dict h addl)) (\<lambda>d.
                  if d
                  then for_guarded [instance] (map fst ikvs) (\<lambda>key.
                         bnd (eval (\<lambda>h. py_in_default env h (VStr key) props)) (\<lambda>known.
                           if known then ret ()
                           else bnd (eval (\<lambda>h. getitem_str h instance key)) (\<lambda>v.
                                  rec v addl (path @ ''/'' @ key))))
                  else ret ()))))"

definition has_keyword :: "validator \<Rightarrow> val \<Rightarrow> val \<Rightarrow> string \<Rightarrow> unit M" where
  "has_keyword rec schema instance path =
     bnd (eval (\<lambda>h. dict_at h schema)) (\<lambda>skvs.
       (case dict_get skvs ''has'' of
          None \<Rightarrow> ret ()
        | Some has_schema \<Rightarrow>
            bnd (eval (\<lambda>h. dict_at h instance)) (\<lambda>ikvs.
            bnd (\<lambda>s. has_loop rec has_schema path (snapshot [instance] s) ikvs s) (\<lambda>valid.
              if \<not> valid
              then emit (Diag ''Object does not have any property satisfying has schema'' [] path)
              else ret ()))))"

definition validate_object :: "pyenv \<Rightarrow> validator \<Rightarrow> val \<Rightarrow> val \<Rightarrow> string \<Rightarrow> unit M" where
  "validate_object env rec schema instance path =
     bnd (eval (\<lambda>h. dict_at h schema)) (\<lambda>skvs.
     bnd (eval (\<lambda>h. case dict_get skvs ''required'' of
                       None \<Rightarrow> Some [] | Some r \<Rightarrow> py_iter h r)) (\<lambda>req.
     seq (for_each req (\<lambda>r.
            bnd (eval (\<lambda>h. py_in env h r instance)) (\<lambda>present.
              if present then ret ()
              else emit (Diag ''Missing required property'' [r] path))))
    (seq (case dict_get skvs ''properties'' of
            None \<Rightarrow> ret ()
          | Some props \<Rightarrow>
              bnd (eval (\<lambda>h. dict_at h props)) (\<lambda>pkvs.
                for_guarded [props] pkvs (\<lambda>kv.
                  bnd (eval (\<lambda>h. py_in env h (VStr (fst kv)) instance)) (\<lambda>present.
                    if present
                    then bnd (eval (\<lambda>h. getitem_str h instance (fst kv))) (\<lambda>v.
                           rec v (snd kv) (path @ ''/'' @ fst kv))
                    else ret ()))))
    (seq (additional_properties env rec schema (dict_get skvs ''properties'') instance path)
    (seq (has_keyword rec schema instance path)
         (dependent_required env schema instance path))))))"

subsection \<open>Arrays, sets, maps and tuples\<close>

text \<open>
  \<^verbatim>\<open>
  items_schema = schema.get("items")
  if items_schema:
      for idx, item in enumerate(instance):
          self.validate_instance(item, items_schema, f"{path}[{idx}]")
  \<close>
\<close>

definition validate_items :: "pyenv \<Rightarrow> validator \<Rightarrow> val \<Rightarrow> val \<Rightarrow> string \<Rightarrow> unit M" where
  "validate_items env rec schema instance path =
     bnd (eval (\<lambda>h. dict_at h schema)) (\<lambda>skvs.
       (case dict_get skvs ''items'' of
          None \<Rightarrow> ret ()
        | Some items_schema \<Rightarrow>
            bnd (peek (\<lambda>h. truthy env h items_schema)) (\<lambda>t.
              if t
              then bnd (eval (\<lambda>h. list_at h instance)) (\<lambda>xs.
                     for_guarded [instance] (enumerate_from0 xs) (\<lambda>x.
                       rec (snd x) items_schema (path @ ''['' @ show_nat (fst x) @ '']'')))
              else ret ())))"

text \<open>\<open>serialized = [json.dumps(x, sort_keys=True) for x in instance]\<close> and
  \<open>len(serialized) != len(set(serialized))\<close>.\<close>

definition has_duplicates :: "pyenv \<Rightarrow> val list \<Rightarrow> bool M" where
  "has_duplicates env xs =
     bnd (eval (\<lambda>h. those (map (json_dumps env h) xs))) (\<lambda>serialized.
       ret (length serialized \<noteq> card (set serialized)))"

definition validate_set :: "pyenv \<Rightarrow> validator \<Rightarrow> val \<Rightarrow> val \<Rightarrow> string \<Rightarrow> unit M" where
  "validate_set env rec schema instance path =
     bnd (eval (\<lambda>h. list_at h instance)) (\<lambda>xs.
     bnd (has_duplicates env xs) (\<lambda>dup.
     seq (if dup then emit (Diag ''Set contains duplicate items'' [] path) else ret ())
         (validate_items env rec schema instance path)))"

definition validate_map :: "pyenv \<Rightarrow> validator \<Rightarrow> val \<Rightarrow> val \<Rightarrow> string \<Rightarrow> unit M" where
  "validate_map env rec schema instance path =
     bnd (eval (\<lambda>h. dict_at h schema)) (\<lambda>skvs.
       (case dict_get skvs ''values'' of
          None \<Rightarrow> ret ()
        | Some values_schema \<Rightarrow>
            bnd (peek (\<lambda>h. truthy env h values_schema)) (\<lambda>t.
              if t
              then bnd (eval (\<lambda>h. dict_at h instance)) (\<lambda>ikvs.
                     for_guarded [instance] ikvs (\<lambda>kv.
                       rec (snd kv) values_schema (path @ ''/'' @ fst kv)))
              else ret ())))"

text \<open>
  \<^verbatim>\<open>
  props = schema.get("properties", {})
  expected_len = len(props)
  if len(instance) != expected_len:
      self.errors.append(f"Tuple at {path} length {len(instance)} does not equal expected {expected_len}")
  else:
      for (prop, prop_schema), item in zip(props.items(), instance):
          self.validate_instance(item, prop_schema, f"{path}/{prop}")
  \<close>
\<close>

definition validate_tuple :: "validator \<Rightarrow> val \<Rightarrow> val \<Rightarrow> string \<Rightarrow> unit M" where
  "validate_tuple rec schema instance path =
     bnd (eval (\<lambda>h. list_at h instance)) (\<lambda>items.
     bnd (eval (\<lambda>h. dict_at h schema)) (\<lambda>skvs.
       (case dict_get skvs ''properties'' of
          None \<Rightarrow>
            (if length items \<noteq> 0 then emit (TupleLength path (length items) 0) else ret ())
        | Some props \<Rightarrow>
            bnd (eval (\<lambda>h. py_len h props)) (\<lambda>expected_len.
              if length items \<noteq> expected_len
              then emit (TupleLength path (length items) expected_len)
              else bnd (eval (\<lambda>h. dict_at h props)) (\<lambda>pkvs.
                     for_guarded [props, instance] (zip pkvs items) (\<lambda>x.
                       rec (snd x) (snd (fst x)) (path @ ''/'' @ fst (fst x))))))))"

text \<open>The whole \<open>if schema_type == ...\<close> chain, for the effective schema and the type tag
  read before \<open>$extends\<close> and \<open>$uses\<close> were applied.\<close>

definition check_type :: "pyenv \<Rightarrow> validator \<Rightarrow> val \<Rightarrow> string \<Rightarrow> val \<Rightarrow> string \<Rightarrow> unit M" where
  "check_type env rec schema schema_type instance path =
     (if schema_type \<in> set PRIMITIVE_TAGS then check_primitive env schema_type instance path
      else if schema_type = ''object'' then
        bnd (peek (\<lambda>h. is_dict h instance)) (\<lambda>d.
          if \<not> d then emit_got ''Expected object'' instance path
          else validate_object env rec schema instance path)
      else if schema_type = ''array'' then
        bnd (peek (\<lambda>h. is_list h instance)) (\<lambda>l.
          if \<not> l then emit_got ''Expected array'' instance path
          else validate_items env rec schema instance path)
      else if schema_type = ''set'' then
        bnd (peek (\<lambda>h. is_list h instance)) (\<lambda>l.
          if \<not> l then emit_got ''Expected set (unique array)'' instance path
          else validate_set env rec schema instance path)
      else if schema_type = ''map'' then
        bnd (peek (\<lambda>h. is_dict h instance)) (\<lambda>d.
          if \<not> d then emit_got ''Expected map (object)'' instance path
          else validate_map env rec schema instance path)
      else if schema_type = ''tuple'' then
        bnd (peek (\<lambda>h. is_list h instance)) (\<lambda>l.
          if \<not> l then emit_got ''Expected tuple (array)'' instance path
          else validate_tuple rec schema instance path)
      else emit (Diag ''Unsupported type'' [VStr schema_type] path))"

section \<open>Validation add-in constraints: \<open>_validate_validation_addins\<close>\<close>

definition NUMERIC_TYPES :: "string list" where
  "NUMERIC_TYPES =
     [''number'', ''integer'', ''float'', ''double'', ''decimal'', ''int32'', ''uint32'',
      ''int64'', ''uint64'', ''int128'', ''uint128'']"

definition raise_re :: "'a M" where
  "raise_re s = Raise ReError s"

text \<open>\<open>try: body except re.error: handler\<close>.\<close>

definition catch_re :: "unit M \<Rightarrow> unit M \<Rightarrow> unit M" where
  "catch_re m handler s = (case m s of Raise ReError s' \<Rightarrow> handler s' | r \<Rightarrow> r)"

text \<open>\<open>try: if a op b: errors.append(violated)  except Exception: errors.append(failed)\<close>.\<close>

definition try_compare :: "pyenv \<Rightarrow> string \<Rightarrow> val \<Rightarrow> val \<Rightarrow> diag \<Rightarrow> diag \<Rightarrow> unit M" where
  "try_compare env op a b violated failed =
     bnd (peek (\<lambda>h. py_cmp env op h a b)) (\<lambda>r.
       (case r of Some True \<Rightarrow> emit violated | Some False \<Rightarrow> ret () | None \<Rightarrow> emit failed))"

definition numeric_constraints :: "pyenv \<Rightarrow> (string \<times> val) list \<Rightarrow> val \<Rightarrow> string \<Rightarrow> unit M" where
  "numeric_constraints env skvs instance path =
     seq (case dict_get skvs ''minimum'' of
            None \<Rightarrow> ret ()
          | Some m \<Rightarrow> try_compare env ''<'' instance m
                        (Diag ''Value is less than minimum'' [m] path)
                        (Diag ''Cannot compare value with minimum constraint'' [] path))
    (seq (case dict_get skvs ''maximum'' of
            None \<Rightarrow> ret ()
          | Some m \<Rightarrow> try_compare env ''>'' instance m
                        (Diag ''Value is greater than maximum'' [m] path)
                        (Diag ''Cannot compare value with maximum constraint'' [] path))
    (seq (if dict_get skvs ''exclusiveMinimum'' = Some (VBool True)
          then try_compare env ''<='' instance
                 (case dict_get skvs ''minimum'' of Some m \<Rightarrow> m | None \<Rightarrow> VFloat (neg_inf env))
                 (Diag ''Value is not greater than exclusive minimum''
                    [case dict_get skvs ''minimum'' of Some m \<Rightarrow> m | None \<Rightarrow> VNone] path)
                 (Diag ''Cannot evaluate exclusiveMinimum constraint'' [] path)
          else ret ())
    (seq (if dict_get skvs ''exclusiveMaximum'' = Some (VBool True)
          then try_compare env ''>='' instance
                 (case dict_get skvs ''maximum'' of Some m \<Rightarrow> m | None \<Rightarrow> VFloat (pos_inf env))
                 (Diag ''Value is not less than exclusive maximum''
                    [case dict_get skvs ''maximum'' of Some m \<Rightarrow> m | None \<Rightarrow> VNone] path)
                 (Diag ''Cannot evaluate exclusiveMaximum constraint'' [] path)
          else ret ())
         (case dict_get skvs ''multipleOf'' of
            None \<Rightarrow> ret ()
          | Some m \<Rightarrow>
              bnd (peek (\<lambda>h. py_mod_nonzero env h instance m)) (\<lambda>r.
                (case r of
                   Some True \<Rightarrow> emit (Diag ''Value is not a multiple of'' [m] path)
                 | Some False \<Rightarrow> ret ()
                 | None \<Rightarrow> emit (Diag ''Cannot evaluate multipleOf constraint'' [] path)))))))"

text \<open>\<open>if len(instance) op schema[kw]: errors.append(...)\<close>, outside any \<open>try\<close>.\<close>

definition length_constraint ::
  "pyenv \<Rightarrow> (string \<times> val) list \<Rightarrow> string \<Rightarrow> string \<Rightarrow> (pyheap \<Rightarrow> nat option) \<Rightarrow> diag \<Rightarrow> unit M" where
  "length_constraint env skvs kw op len violated =
     (case dict_get skvs kw of
        None \<Rightarrow> ret ()
      | Some bound \<Rightarrow>
          bnd (eval len) (\<lambda>n.
          bnd (eval (\<lambda>h. py_cmp env op h (VInt (int n)) bound)) (\<lambda>bad.
            if bad then emit violated else ret ())))"

definition string_constraints :: "pyenv \<Rightarrow> (string \<times> val) list \<Rightarrow> val \<Rightarrow> string \<Rightarrow> unit M" where
  "string_constraints env skvs instance path =
     seq (length_constraint env skvs ''minLength'' ''<'' (\<lambda>h. py_len h instance)
            (Diag ''String shorter than minLength'' [] path))
    (seq (length_constraint env skvs ''maxLength'' ''>'' (\<lambda>h. py_len h instance)
            (Diag ''String longer than maxLength'' [] path))
    (seq (case dict_get skvs ''pattern'' of
            None \<Rightarrow> ret ()
          | Some p \<Rightarrow>
              (case p of
                 VStr pat \<Rightarrow>
                   (if \<not> re_valid env pat then raise_re
                    else (case instance of
                            VStr s \<Rightarrow>
                              (if \<not> re_search env pat s
                               then emit (Diag ''String does not match pattern'' [p] path)
                               else ret ())
                          | _ \<Rightarrow> raise))
               | _ \<Rightarrow> raise))
         (case dict_get skvs ''format'' of
            None \<Rightarrow> ret ()
          | Some fmt \<Rightarrow>
              (if fmt = VStr ''email''
               then bnd (eval (\<lambda>h. in_str h ''@'' instance)) (\<lambda>at.
                      if \<not> at
                      then emit (Diag ''String does not appear to be a valid email'' [] path)
                      else ret ())
               else if fmt = VStr ''uri''
               then bnd (eval (\<lambda>h. url_has_scheme env h instance)) (\<lambda>ok.
                      if \<not> ok
                      then emit (Diag ''String does not appear to be a valid uri'' [] path)
                      else ret ())
               else ret ()))))"

definition array_constraints :: "pyenv \<Rightarrow> (string \<times> val) list \<Rightarrow> val \<Rightarrow> string \<Rightarrow> unit M" where
  "array_constraints env skvs instance path =
     seq (length_constraint env skvs ''minItems'' ''<'' (\<lambda>h. py_len h instance)
            (Diag ''Array has fewer items than minItems'' [] path))
    (seq (length_constraint env skvs ''maxItems'' ''>'' (\<lambda>h. py_len h instance)
            (Diag ''Array has more items than maxItems'' [] path))
         (if dict_get skvs ''uniqueItems'' = Some (VBool True)
          then bnd (eval (\<lambda>h. py_iter h instance)) (\<lambda>xs.
               bnd (has_duplicates env xs) (\<lambda>dup.
                 if dup then emit (Diag ''Array does not have unique items'' [] path)
                 else ret ()))
          else ret ()))"

text \<open>
  \<open>patternProperties\<close> of an object and \<open>patternKeys\<close> of a map:
  \<^verbatim>\<open>
  for pattern_str, pattern_schema in schema[kw].items():
      try:
          pattern = re.compile(pattern_str)
          for prop_name, prop_value in instance.items():
              if pattern.search(prop_name):
                  self.validate_instance(prop_value, pattern_schema, f"{path}/{prop_name}")
      except re.error:
          self.errors.append(...)
  \<close>
\<close>

definition pattern_properties ::
  "pyenv \<Rightarrow> validator \<Rightarrow> val \<Rightarrow> string \<Rightarrow> val \<Rightarrow> string \<Rightarrow> unit M" where
  "pattern_properties env rec schema kw instance path =
     bnd (eval (\<lambda>h. dict_at h schema)) (\<lambda>skvs.
       (case dict_get skvs kw of
          None \<Rightarrow> ret ()
        | Some pp \<Rightarrow>
            bnd (peek (\<lambda>h. dict_at h pp)) (\<lambda>pd.
              (case pd of
                 None \<Rightarrow> ret ()
               | Some pkvs \<Rightarrow>
                   for_guarded [pp] pkvs (\<lambda>kv.
                     catch_re
                       (if \<not> re_valid env (fst kv) then raise_re
                        else bnd (eval (\<lambda>h. dict_at h instance)) (\<lambda>ikvs.
                               for_guarded [instance] ikvs (\<lambda>iv.
                                 if re_search env (fst kv) (fst iv)
                                 then rec (snd iv) (snd kv) (path @ ''/'' @ fst iv)
                                 else ret ())))
                       (emit (Diag (''Invalid regular expression in '' @ kw)
                                [VStr (fst kv)] path)))))))"

text \<open>\<open>propertyNames\<close> of an object and \<open>keyNames\<close> of a map; \<open>label\<close> is the path
  segment that precedes the name.\<close>

definition names_schema ::
  "validator \<Rightarrow> val \<Rightarrow> string \<Rightarrow> string \<Rightarrow> val \<Rightarrow> string \<Rightarrow> unit M" where
  "names_schema rec schema kw label instance path =
     bnd (eval (\<lambda>h. dict_at h schema)) (\<lambda>skvs.
       (case dict_get skvs kw of
          None \<Rightarrow> ret ()
        | Some ns \<Rightarrow>
            bnd (peek (\<lambda>h. dict_at h ns)) (\<lambda>nd.
              if (case nd of None \<Rightarrow> True
                  | Some nkvs \<Rightarrow> dict_get nkvs ''type'' \<noteq> Some (VStr ''string''))
              then emit (Diag (kw @ '' schema must be of type string'') [] path)
              else bnd (eval (\<lambda>h. dict_at h instance)) (\<lambda>ikvs.
                     for_guarded [instance] (map fst ikvs) (\<lambda>name.
                       rec (VStr name) ns (path @ label @ name @ '')''))))))"

definition object_constraints :: "pyenv \<Rightarrow> validator \<Rightarrow> val \<Rightarrow> val \<Rightarrow> string \<Rightarrow> unit M" where
  "object_constraints env rec schema instance path =
     bnd (eval (\<lambda>h. dict_at h schema)) (\<lambda>skvs.
     seq (length_constraint env skvs ''minProperties'' ''<''
            (\<lambda>h. map_option length (dict_at h instance))
            (Diag ''Object has fewer properties than minProperties'' [] path))
    (seq (length_constraint env skvs ''maxProperties'' ''>''
            (\<lambda>h. map_option length (dict_at h instance))
            (Diag ''Object has more properties than maxProperties'' [] path))
    (seq (pattern_properties env rec schema ''patternProperties'' instance path)
    (seq (names_schema rec schema ''propertyNames'' ''/propertyName('' instance path)
         (dependent_required env schema instance path)))))"

definition map_constraints :: "pyenv \<Rightarrow> validator \<Rightarrow> val \<Rightarrow> val \<Rightarrow> string \<Rightarrow> unit M" where
  "map_constraints env rec schema instance path =
     seq (pattern_properties env rec schema ''patternKeys'' instance path)
         (names_schema rec schema ''keyNames'' ''/keyName('' instance path)"

text \<open>\<open>schema.get("type") == tag\<close>, read from the store at that moment.\<close>

definition schema_type_is :: "val \<Rightarrow> (string \<Rightarrow> bool) \<Rightarrow> bool M" where
  "schema_type_is schema P =
     eval (\<lambda>h. case dict_at h schema of
                  None \<Rightarrow> None
                | Some skvs \<Rightarrow>
                    Some (case dict_get skvs ''type'' of Some (VStr t) \<Rightarrow> P t | _ \<Rightarrow> False))"

definition validate_validation_addins ::
  "pyenv \<Rightarrow> validator \<Rightarrow> val \<Rightarrow> val \<Rightarrow> string \<Rightarrow> unit M" where
  "validate_validation_addins env rec schema instance path =
     bnd (eval (\<lambda>h. dict_at h schema)) (\<lambda>skvs.
     bnd (schema_type_is schema (\<lambda>t. t \<in> set NUMERIC_TYPES)) (\<lambda>numeric.
     seq (if numeric then numeric_constraints env skvs instance path else ret ())
    (bnd (schema_type_is schema (\<lambda>t. t = ''string'')) (\<lambda>is_string.
     seq (if is_string then string_constraints env skvs instance path else ret ())
    (bnd (schema_type_is schema (\<lambda>t. t = ''array'')) (\<lambda>is_array.
     seq (if is_array then array_constraints env skvs instance path else ret ())
    (bnd (schema_type_is schema (\<lambda>t. t = ''object'')) (\<lambda>is_object.
     seq (if is_object then object_constraints env rec schema instance path else ret ())
    (bnd (schema_type_is schema (\<lambda>t. t = ''map'')) (\<lambda>is_map.
       if is_map then map_constraints env rec schema instance path else ret ()))))))))))"

section \<open>\<open>validate_instance\<close>\<close>

definition EXTENDED_META :: string where
  "EXTENDED_META = ''https://json-structure.github.io/meta/extended/v0/#''"

definition VALIDATION_META :: string where
  "VALIDATION_META = ''https://json-structure.github.io/meta/validation/v0/#''"

definition CORE_META :: string where
  "CORE_META = ''https://json-structure.github.io/meta/core/v0/#''"

definition ALL_ADDINS :: "string list" where
  "ALL_ADDINS =
     [''JSONStructureConditionalComposition'', ''JSONStructureValidation'',
      ''JSONStructureUnits'', ''JSONStructureAlternateNames'']"

text \<open>\<open>self.root_schema.get("$schema") == uri\<close>.\<close>

definition root_meta_is :: "val \<Rightarrow> string \<Rightarrow> bool M" where
  "root_meta_is root uri =
     eval (\<lambda>h. case dict_at h root of
                  None \<Rightarrow> None
                | Some rkvs \<Rightarrow> Some (dict_get rkvs ''$schema'' = Some (VStr uri)))"

text \<open>\<open>schema.setdefault("$uses", [])\<close>: writes into the schema object it is given.\<close>

definition setdefault_uses :: "val \<Rightarrow> unit M" where
  "setdefault_uses schema =
     bnd (eval (\<lambda>h. dict_at h schema)) (\<lambda>skvs.
       if dict_has skvs ''$uses'' then ret ()
       else bnd (alloc (OList [])) (\<lambda>l. store_dict schema (dict_set skvs ''$uses'' l)))"

text \<open>\<open>if name not in schema["$uses"]: schema["$uses"].append(name)\<close>.\<close>

definition append_use :: "val \<Rightarrow> string \<Rightarrow> unit M" where
  "append_use schema name =
     bnd (eval (\<lambda>h. getitem_str h schema ''$uses'')) (\<lambda>u.
     bnd (eval (\<lambda>h. in_str h name u)) (\<lambda>present.
       if present then ret ()
       else bnd (eval (\<lambda>h. list_at h u)) (\<lambda>xs. store_list u (xs @ [VStr name]))))"

text \<open>\<open>if name in instance["$uses"] and not name in schema["$uses"]:
  schema["$uses"].append(name)\<close>.\<close>

definition enable_if_used :: "val \<Rightarrow> val \<Rightarrow> string \<Rightarrow> unit M" where
  "enable_if_used instance schema name =
     bnd (eval (\<lambda>h. getitem_str h instance ''$uses'')) (\<lambda>iu.
     bnd (eval (\<lambda>h. in_str h name iu)) (\<lambda>used.
       if used then append_use schema name else ret ()))"

text \<open>\<open>isinstance(instance, dict) and "$uses" in instance\<close>, with the value of the key.\<close>

definition uses_of_instance :: "val \<Rightarrow> val option M" where
  "uses_of_instance instance =
     peek (\<lambda>h. case dict_at h instance of None \<Rightarrow> None | Some ikvs \<Rightarrow> dict_get ikvs ''$uses'')"

text \<open>The three blocks at the start of \<open>validate_instance\<close> that look at the root's
  \<open>$schema\<close>.\<close>

definition auto_enable :: "val \<Rightarrow> val \<Rightarrow> val \<Rightarrow> string \<Rightarrow> unit M" where
  "auto_enable root instance schema path =
     bnd (root_meta_is root EXTENDED_META) (\<lambda>extended.
     seq (if extended
          then seq (setdefault_uses schema) (for_each ALL_ADDINS (append_use schema))
          else ret ())
    (bnd (uses_of_instance instance) (\<lambda>iu.
     seq (if iu = None then ret ()
          else bnd (root_meta_is root VALIDATION_META) (\<lambda>validation.
                 if validation
                 then seq (setdefault_uses schema)
                     (seq (enable_if_used instance schema ''JSONStructureValidation'')
                          (enable_if_used instance schema ''JSONStructureConditionalComposition''))
                 else ret ()))
    (bnd (uses_of_instance instance) (\<lambda>iu'.
       (case iu' of
          None \<Rightarrow> ret ()
        | Some u \<Rightarrow>
            bnd (root_meta_is root CORE_META) (\<lambda>core.
              if core
              then bnd (eval (\<lambda>h. in_str h ''JSONStructureValidation'' u)) (\<lambda>a.
                   bnd (if a then ret True
                        else eval (\<lambda>h. in_str h ''JSONStructureConditionalComposition'' u)) (\<lambda>b.
                     if b
                     then emit (Diag ''Instance references addins but the schema does not support them''
                                  [] path)
                     else ret ()))
              else ret ())))))))"

text \<open>\<open>"$uses" in self.root_schema\<close> and \<open>name in self.root_schema["$uses"]\<close>.\<close>

definition root_uses_has :: "val \<Rightarrow> string \<Rightarrow> bool M" where
  "root_uses_has root name =
     bnd (eval (\<lambda>h. in_str h ''$uses'' root)) (\<lambda>present.
       if present
       then bnd (eval (\<lambda>h. getitem_str h root ''$uses'')) (\<lambda>u. eval (\<lambda>h. in_str h name u))
       else ret False)"

text \<open>\<open>dict(x)\<close>: a copy of a dictionary; any other \<open>x\<close> is read as a sequence of pairs,
  which the model follows only when it is empty.\<close>

definition dict_copy :: "val \<Rightarrow> val M" where
  "dict_copy x =
     bnd (peek (\<lambda>h. dict_at h x)) (\<lambda>d.
       (case d of
          Some kvs \<Rightarrow> alloc (ODict kvs)
        | None \<Rightarrow>
            bnd (eval (\<lambda>h. py_iter h x)) (\<lambda>xs.
              if xs = [] then alloc (ODict []) else unsupported)))"

text \<open>
  \<open>type\<close> is a dictionary with \<open>$ref\<close>: the result is the new schema and its type, or
  \<open>None\<close> after the diagnostic of an unresolved pointer.
\<close>

definition resolve_type_ref :: "val \<Rightarrow> val \<Rightarrow> val \<Rightarrow> string \<Rightarrow> (val \<times> val) option M" where
  "resolve_type_ref root schema tref path =
     bnd (resolve_ref_val root tref) (\<lambda>resolved.
       if resolved = VNone
       then seq (emit (Diag ''Cannot resolve $ref'' [tref] (path @ ''/type''))) (ret None)
       else
         bnd (eval (\<lambda>h. dict_at h schema)) (\<lambda>skvs.
         bnd (alloc (ODict skvs)) (\<lambda>new_schema.
         bnd (eval (\<lambda>h. dict_at h resolved)) (\<lambda>rkvs.
         seq (store_dict new_schema
                (dict_set skvs ''type'' (case dict_get rkvs ''type'' of Some t \<Rightarrow> t | None \<Rightarrow> VNone)))
        (seq (case dict_get rkvs ''properties'' of
                None \<Rightarrow> ret ()
              | Some rp \<Rightarrow>
                  bnd (dict_copy rp) (\<lambda>merged_props.
                  seq (update_from merged_props (dict_get skvs ''properties''))
                      (bnd (eval (\<lambda>h. dict_at h new_schema)) (\<lambda>nkvs.
                         store_dict new_schema (dict_set nkvs ''properties'' merged_props)))))
             (ret (Some (new_schema,
                         (case dict_get rkvs ''type'' of Some t \<Rightarrow> t | None \<Rightarrow> VNone)))))))))"

text \<open>
  The loop over a union type. As in \<open>anyOf\<close>, a branch that leaves the buffer empty ends
  the loop with \<open>break\<close> before \<open>self.errors = backup\<close>. The result is
  \<open>(union_valid, union_errors)\<close>.
\<close>

fun union_loop ::
  "validator \<Rightarrow> val \<Rightarrow> string \<Rightarrow> (val \<times> obj option) list \<Rightarrow> val list \<Rightarrow> diag list \<Rightarrow>
   (bool \<times> diag list) M" where
  "union_loop rec instance path snap [] acc = ret (False, acc)"
| "union_loop rec instance path snap (t # ts) acc =
     bnd get_errors (\<lambda>backup.
     seq (set_errors [])
    (bnd (alloc (ODict [(''type'', t)])) (\<lambda>sch.
     seq (rec instance sch path)
    (bnd get_errors (\<lambda>es.
       if es = [] then ret (True, acc)
       else seq (set_errors backup)
           (seq (same_containers snap)
                (union_loop rec instance path snap ts (acc @ es))))))))"

definition union_block :: "validator \<Rightarrow> val \<Rightarrow> val \<Rightarrow> val list \<Rightarrow> string \<Rightarrow> unit M" where
  "union_block rec instance schema_type ts path =
     bnd (\<lambda>s. union_loop rec instance path (snapshot [schema_type] s) ts [] s) (\<lambda>r.
       if \<not> fst r then emit (UnionMismatch path (snd r)) else ret ())"

text \<open>
  \<open>$extends\<close>: the result is the effective schema, or \<open>None\<close> after the diagnostic of an
  unresolved pointer. \<open>merged = dict(base); merged.update(schema)\<close> takes every key of the
  extending schema, \<open>properties\<close> included, over the base's.
\<close>

definition apply_extends :: "pyenv \<Rightarrow> val \<Rightarrow> val \<Rightarrow> string \<Rightarrow> val option M" where
  "apply_extends env root schema path =
     bnd (eval (\<lambda>h. dict_at h schema)) (\<lambda>skvs.
       (case dict_get skvs ''$extends'' of
          None \<Rightarrow> ret (Some schema)
        | Some ext \<Rightarrow>
            bnd (resolve_ref_val root ext) (\<lambda>base.
              if base = VNone
              then seq (emit (Diag ''Cannot resolve $extends'' [ext] path)) (ret None)
              else
                bnd (eval (\<lambda>h. dict_at h base)) (\<lambda>bkvs.
                bnd (eval (\<lambda>h. case dict_get bkvs ''properties'' of
                                  None \<Rightarrow> Some [] | Some bp \<Rightarrow> py_iter h bp)) (\<lambda>keys.
                seq (for_each keys (\<lambda>key.
                       bnd (eval (\<lambda>h. py_in_default env h key (dict_get skvs ''properties''))) (\<lambda>c.
                         if c
                         then emit (Diag ''Property is inherited via $extends and must not be redefined''
                                      [key] path)
                         else ret ())))
                    (bnd (alloc (ODict (dict_del (dict_update bkvs skvs) ''$extends''))) (\<lambda>merged.
                       ret (Some merged))))))))"

text \<open>\<open>instance.pop("$uses")\<close>.\<close>

definition pop_uses :: "val \<Rightarrow> unit M" where
  "pop_uses instance =
     bnd (eval (\<lambda>h. dict_at h instance)) (\<lambda>ikvs.
       if dict_has ikvs ''$uses'' then store_dict instance (dict_del ikvs ''$uses'') else raise)"

definition const_enum :: "pyenv \<Rightarrow> val \<Rightarrow> val \<Rightarrow> string \<Rightarrow> unit M" where
  "const_enum env schema instance path =
     bnd (eval (\<lambda>h. dict_at h schema)) (\<lambda>skvs.
     seq (case dict_get skvs ''const'' of
            None \<Rightarrow> ret ()
          | Some c \<Rightarrow>
              bnd (eval (\<lambda>h. py_eq env h instance c)) (\<lambda>e.
                if \<not> e then emit (Diag ''Value does not equal const'' [c] path) else ret ()))
         (case dict_get skvs ''enum'' of
            None \<Rightarrow> ret ()
          | Some en \<Rightarrow>
              bnd (eval (\<lambda>h. py_in env h instance en)) (\<lambda>i.
                if \<not> i then emit (Diag ''Value not in enum'' [en] path) else ret ())))"

text \<open>What follows the type-based validation: the validation add-in constraints when the
  root's \<open>$uses\<close> names them, then \<open>const\<close> and \<open>enum\<close>.\<close>

definition after_type_check ::
  "pyenv \<Rightarrow> val \<Rightarrow> validator \<Rightarrow> val \<Rightarrow> val \<Rightarrow> string \<Rightarrow> unit M" where
  "after_type_check env root rec schema instance path =
     bnd (root_uses_has root ''JSONStructureValidation'') (\<lambda>validation.
     seq (if validation then validate_validation_addins env rec schema instance path else ret ())
         (const_enum env schema instance path))"

text \<open>From \<open>$uses\<close> to the end of \<open>validate_instance\<close>, for a schema that is not abstract.\<close>

definition finish_typed ::
  "pyenv \<Rightarrow> val \<Rightarrow> validator \<Rightarrow> val \<Rightarrow> val \<Rightarrow> string \<Rightarrow> string \<Rightarrow> unit M" where
  "finish_typed env root rec instance schema schema_type path =
     bnd (uses_of_instance instance) (\<lambda>iu.
     bnd (if iu = None then ret schema
          else bnd (apply_uses env root schema instance) (\<lambda>eff.
                 seq (pop_uses instance) (ret eff))) (\<lambda>eff.
     seq (check_type env rec eff schema_type instance path)
         (after_type_check env root rec eff instance path)))"

text \<open>From \<open>$extends\<close> on, for a type tag that is a string.\<close>

definition string_typed ::
  "pyenv \<Rightarrow> val \<Rightarrow> validator \<Rightarrow> val \<Rightarrow> val \<Rightarrow> string \<Rightarrow> string \<Rightarrow> unit M" where
  "string_typed env root rec instance schema schema_type path =
     bnd (apply_extends env root schema path) (\<lambda>r.
       (case r of
          None \<Rightarrow> ret ()
        | Some eff \<Rightarrow>
            bnd (eval (\<lambda>h. dict_at h eff)) (\<lambda>ekvs.
              if dict_get ekvs ''abstract'' = Some (VBool True)
              then emit (Diag ''Abstract schema cannot be used for instance validation'' [] path)
              else finish_typed env root rec instance eff schema_type path)))"

text \<open>From \<open>schema_type = schema.get("type")\<close> on.\<close>

definition validate_typed ::
  "pyenv \<Rightarrow> val \<Rightarrow> validator \<Rightarrow> val \<Rightarrow> val \<Rightarrow> bool \<Rightarrow> string \<Rightarrow> unit M" where
  "validate_typed env root rec instance schema hasConditionals path =
     bnd (eval (\<lambda>h. dict_at h schema)) (\<lambda>skvs.
     bnd (ret (case dict_get skvs ''type'' of Some t \<Rightarrow> t | None \<Rightarrow> VNone)) (\<lambda>schema_type.
     bnd (peek (\<lambda>h. truthy env h schema_type)) (\<lambda>t.
       if \<not> t \<and> hasConditionals then ret ()
       else
         seq (if \<not> t then emit (Diag ''Schema has no type'' [] path) else ret ())
        (bnd (peek (\<lambda>h. dict_at h schema_type)) (\<lambda>td.
         bnd (case td of
                None \<Rightarrow> ret (Some (schema, schema_type))
              | Some tkvs \<Rightarrow>
                  (case dict_get tkvs ''$ref'' of
                     Some tref \<Rightarrow> resolve_type_ref root schema tref path
                   | None \<Rightarrow> seq (emit (Diag ''Schema has invalid type'' [] path)) (ret None))) (\<lambda>r.
           (case r of
              None \<Rightarrow> ret ()
            | Some st \<Rightarrow>
                bnd (peek (\<lambda>h. list_at h (snd st))) (\<lambda>tl.
                  (case tl of
                     Some ts \<Rightarrow> union_block rec instance (snd st) ts path
                   | None \<Rightarrow>
                       (case snd st of
                          VStr tag \<Rightarrow> string_typed env root rec instance (fst st) tag path
                        | _ \<Rightarrow> emit (Diag ''Schema has invalid type'' [] path)))))))))))"

text \<open>One call of \<open>validate_instance(instance, schema, path)\<close>, with \<open>rec\<close> for the calls it
  makes. The return value \<open>self.errors\<close> is the buffer of the state the call ends in.\<close>

definition validate_body :: "pyenv \<Rightarrow> val \<Rightarrow> validator \<Rightarrow> val \<Rightarrow> val \<Rightarrow> string \<Rightarrow> unit M" where
  "validate_body env root rec instance schema0 path =
     bnd (ret (if schema0 = VNone then root else schema0)) (\<lambda>schema.
     seq (auto_enable root instance schema path)
    (bnd (eval (\<lambda>h. in_str h ''$ref'' schema)) (\<lambda>has_ref.
       if has_ref
       then bnd (eval (\<lambda>h. getitem_str h schema ''$ref'')) (\<lambda>ref.
            bnd (resolve_ref_val root ref) (\<lambda>resolved.
              if resolved = VNone then emit (Diag ''Cannot resolve $ref'' [ref] path)
              else rec instance resolved path))
       else
         bnd (bnd (root_uses_has root ''JSONStructureConditionalComposition'') (\<lambda>enabled.
                if enabled then validate_conditionals rec schema instance path else ret False))
           (\<lambda>hasConditionals.
              validate_typed env root rec instance schema hasConditionals path))))"

text \<open>
  The recursion of \<open>validate_instance\<close> is not bounded by the source, so the model counts
  the depth of nested calls: \<open>validate_instance n\<close> is the call when at most \<open>n\<close> calls may
  be nested, and \<open>OutOfFuel\<close> says that more are needed.
\<close>

primrec validate_instance :: "nat \<Rightarrow> pyenv \<Rightarrow> val \<Rightarrow> validator" where
  "validate_instance 0 env root = (\<lambda>instance schema path s. OutOfFuel)"
| "validate_instance (Suc n) env root = validate_body env root (validate_instance n env root)"

text \<open>
  A validator for a schema document and one call \<open>validate_instance(instance)\<close> on it, from
  parsed JSON: the documents are loaded into an empty store, the buffer starts empty.
\<close>

definition run_validate :: "nat \<Rightarrow> pyenv \<Rightarrow> json \<Rightarrow> json \<Rightarrow> unit res" where
  "run_validate n env schema_doc instance_doc =
     (case load schema_doc [] of
        (root, h) \<Rightarrow>
          (case load instance_doc h of
             (instance, h') \<Rightarrow>
               validate_instance n env root instance VNone ''#'' \<lparr>heap = h', errors = []\<rparr>))"

text \<open>The diagnostics a call returns, when it returns.\<close>

definition returned :: "unit res \<Rightarrow> diag list option" where
  "returned r = (case r of Ok _ s \<Rightarrow> Some (errors s) | _ \<Rightarrow> None)"

section \<open>Import expansion: \<open>_process_imports\<close>\<close>

text \<open>
  \<open>ABSOLUTE_URI_REGEX.search(uri)\<close> for \<open>^[a-zA-Z][a-zA-Z0-9+\-.]*://\<close>: a letter, the
  longest run of scheme characters (it cannot end earlier, since \<open>:\<close> is none of them), then
  \<open>://\<close>.
\<close>

definition is_ascii_alpha :: "char \<Rightarrow> bool" where
  "is_ascii_alpha c =
     (let n = (of_char c :: nat) in (65 \<le> n \<and> n \<le> 90) \<or> (97 \<le> n \<and> n \<le> 122))"

definition is_scheme_char :: "char \<Rightarrow> bool" where
  "is_scheme_char c =
     (let n = (of_char c :: nat)
      in is_ascii_alpha c \<or> (48 \<le> n \<and> n \<le> 57) \<or> c = CHR ''+'' \<or> c = CHR ''-'' \<or> c = CHR ''.'')"

definition absolute_uri :: "string \<Rightarrow> bool" where
  "absolute_uri s =
     (case s of
        [] \<Rightarrow> False
      | c # cs \<Rightarrow> is_ascii_alpha c \<and> starts_with ''://'' (dropWhile is_scheme_char cs))"

text \<open>The documents that \<open>_fetch_external_schema\<close> knows without an import map: those of
  the instance validator and those of the schema validator.\<close>

definition SIMULATED_SCHEMAS :: "(string \<times> json) list" where
  "SIMULATED_SCHEMAS =
     [(''https://example.com/people.json'',
       JObj [(''$schema'', JStr ''https://json-structure.github.io/meta/core/v0/#''),
             (''$id'', JStr ''https://example.com/people.json''),
             (''name'', JStr ''Person''),
             (''type'', JStr ''object''),
             (''properties'',
              JObj [(''firstName'', JObj [(''type'', JStr ''string'')]),
                    (''lastName'', JObj [(''type'', JStr ''string'')]),
                    (''address'', JObj [(''$ref'', JStr ''#/Address'')])]),
             (''definitions'',
              JObj [(''Address'',
                     JObj [(''name'', JStr ''Address''),
                           (''type'', JStr ''object''),
                           (''properties'',
                            JObj [(''street'', JObj [(''type'', JStr ''string'')]),
                                  (''city'', JObj [(''type'', JStr ''string'')])])])])]),
      (''https://example.com/importdefs.json'',
       JObj [(''$schema'', JStr ''https://json-structure.github.io/meta/core/v0/#''),
             (''$id'', JStr ''https://example.com/importdefs.json''),
             (''definitions'',
              JObj [(''LibraryType'',
                     JObj [(''name'', JStr ''LibraryType''), (''type'', JStr ''string'')])])])]"

definition EXTERNAL_SCHEMAS :: "(string \<times> json) list" where
  "EXTERNAL_SCHEMAS =
     [(''https://example.com/people.json'',
       JObj [(''$schema'', JStr ''https://json-structure.org/meta/core/v0/#''),
             (''$id'', JStr ''https://example.com/people.json''),
             (''name'', JStr ''Person''),
             (''type'', JStr ''object''),
             (''properties'',
              JObj [(''firstName'', JObj [(''type'', JStr ''string'')]),
                    (''lastName'', JObj [(''type'', JStr ''string'')]),
                    (''address'', JObj [(''$ref'', JStr ''#/definitions/Address'')])]),
             (''definitions'',
              JObj [(''Address'',
                     JObj [(''name'', JStr ''Address''),
                           (''type'', JStr ''object''),
                           (''properties'',
                            JObj [(''street'', JObj [(''type'', JStr ''string'')]),
                                  (''city'', JObj [(''type'', JStr ''string'')])])])])]),
      (''https://example.com/address.json'',
       JObj [(''$schema'', JStr ''https://json-structure.org/meta/core/v0/#''),
             (''$id'', JStr ''https://example.com/address.json''),
             (''name'', JStr ''Address''),
             (''type'', JStr ''object''),
             (''properties'',
              JObj [(''street'', JObj [(''type'', JStr ''string'')]),
                    (''city'', JObj [(''type'', JStr ''string'')])])])]"

text \<open>\<open>json.load\<close> of a document into the store.\<close>

definition load_doc :: "json \<Rightarrow> val M" where
  "load_doc j s = (case load j (heap s) of (v, h') \<Rightarrow> Ok v (s\<lparr>heap := h'\<rparr>))"

text \<open>
  \<open>_fetch_external_schema(uri)\<close> with the table \<open>known\<close> of simulated documents. A file
  of the import map that cannot be read or parsed gives a diagnostic and \<open>None\<close>.
\<close>

definition fetch_external_schema :: "pyenv \<Rightarrow> (string \<times> json) list \<Rightarrow> string \<Rightarrow> val M" where
  "fetch_external_schema env known uri =
     (case map_of (import_map env) uri of
        Some file \<Rightarrow>
          (case read_json_file env file of
             Some j \<Rightarrow> load_doc j
           | None \<Rightarrow> seq (emit (Diag ''Failed to load imported schema'' [VStr file] [])) (ret VNone))
      | None \<Rightarrow>
          (case map_of known uri of
             Some j \<Rightarrow> load_doc j
           | None \<Rightarrow> ret VNone))"

text \<open>\<open>"definitions" in external and isinstance(external["definitions"], dict)\<close>, with the
  entries of that dictionary.\<close>

definition definitions_of :: "val \<Rightarrow> (string \<times> val) list option M" where
  "definitions_of external =
     bnd (eval (\<lambda>h. in_str h ''definitions'' external)) (\<lambda>present.
       if present
       then bnd (eval (\<lambda>h. getitem_str h external ''definitions'')) (\<lambda>d.
              peek (\<lambda>h. dict_at h d))
       else ret None)"

text \<open>
  The dictionary \<open>imported_defs\<close> that the branch for \<open>key\<close> builds:
  \<^verbatim>\<open>
  if key == "$import":
      imported_defs = {}
      if "type" in external and "name" in external:
          imported_defs[external["name"]] = external
      if "definitions" in external and isinstance(external["definitions"], dict):
          imported_defs.update(external["definitions"])
  else:
      if "definitions" in external and isinstance(external["definitions"], dict):
          imported_defs = external["definitions"]
      else:
          imported_defs = {}
  \<close>
  A name that is not a string would become a key that is not a string.
\<close>

definition imported_defs :: "string \<Rightarrow> val \<Rightarrow> (string \<times> val) list M" where
  "imported_defs key external =
     (if key = ''$import''
      then
        bnd (eval (\<lambda>h. in_str h ''type'' external)) (\<lambda>has_type.
        bnd (if has_type then eval (\<lambda>h. in_str h ''name'' external) else ret False) (\<lambda>has_name.
        bnd (if has_name
             then bnd (eval (\<lambda>h. getitem_str h external ''name'')) (\<lambda>name.
                    (case name of
                       VStr n \<Rightarrow> ret [(n, external)]
                     | VRef _ \<Rightarrow> raise
                     | _ \<Rightarrow> unsupported))
             else ret []) (\<lambda>own.
        bnd (definitions_of external) (\<lambda>defs.
          ret (case defs of Some dkvs \<Rightarrow> dict_update own dkvs | None \<Rightarrow> own)))))
      else
        bnd (definitions_of external) (\<lambda>defs.
          ret (case defs of Some dkvs \<Rightarrow> dkvs | None \<Rightarrow> [])))"

text \<open>\<open>for k, v in imported_defs.items(): if k not in obj: obj[k] = v\<close> and
  \<open>del obj[key]\<close>.\<close>

definition merge_imported :: "val \<Rightarrow> string \<Rightarrow> (string \<times> val) list \<Rightarrow> unit M" where
  "merge_imported ob key defs =
     seq (for_each defs (\<lambda>kv.
            bnd (eval (\<lambda>h. dict_at h ob)) (\<lambda>okvs.
              if dict_has okvs (fst kv) then ret ()
              else store_dict ob (dict_set okvs (fst kv) (snd kv)))))
         (bnd (eval (\<lambda>h. dict_at h ob)) (\<lambda>okvs.
            if dict_has okvs key then store_dict ob (dict_del okvs key) else raise))"

text \<open>One pass of \<open>for key in list(obj.keys())\<close> for a dictionary \<open>obj\<close>.\<close>

definition import_key ::
  "pyenv \<Rightarrow> (string \<times> json) list \<Rightarrow> bool \<Rightarrow> val \<Rightarrow> string \<Rightarrow> string \<Rightarrow> unit M" where
  "import_key env known allow_import ob path key =
     (if key \<noteq> ''$import'' \<and> key \<noteq> ''$importdefs'' then ret ()
      else if \<not> allow_import
      then emit (Diag ''JSONStructureImport keyword encountered but allow_import not enabled''
                   [VStr key] (path @ ''/'' @ key))
      else
        bnd (eval (\<lambda>h. getitem_str h ob key)) (\<lambda>uri.
          (case uri of
             VStr u \<Rightarrow>
               (if \<not> absolute_uri u
                then emit (Diag ''JSONStructureImport keyword value must be an absolute URI''
                             [VStr key] (path @ ''/'' @ key))
                else
                  bnd (fetch_external_schema env known u) (\<lambda>external.
                    if external = VNone
                    then emit (Diag ''Unable to fetch external schema'' [uri] (path @ ''/'' @ key))
                    else bnd (imported_defs key external) (merge_imported ob key)))
           | _ \<Rightarrow> emit (Diag ''JSONStructureImport keyword value must be a string URI''
                         [VStr key] (path @ ''/'' @ key)))))"

type_synonym importer = "val \<Rightarrow> string \<Rightarrow> unit M"

text \<open>One call of \<open>_process_imports(obj, path)\<close>, with \<open>rec\<close> for the calls it makes.\<close>

definition process_imports_body ::
  "pyenv \<Rightarrow> (string \<times> json) list \<Rightarrow> bool \<Rightarrow> importer \<Rightarrow> val \<Rightarrow> string \<Rightarrow> unit M" where
  "process_imports_body env known allow_import rec ob path =
     bnd (peek (\<lambda>h. (dict_at h ob, list_at h ob))) (\<lambda>shape.
       (case fst shape of
          Some kvs \<Rightarrow>
            seq (for_each (map fst kvs) (import_key env known allow_import ob path))
                (bnd (eval (\<lambda>h. dict_at h ob)) (\<lambda>kvs'.
                   for_guarded [ob] kvs' (\<lambda>kv. rec (snd kv) (path @ ''/'' @ fst kv))))
        | None \<Rightarrow>
            (case snd shape of
               Some xs \<Rightarrow>
                 for_guarded [ob] (enumerate_from0 xs) (\<lambda>x.
                   rec (snd x) (path @ ''['' @ show_nat (fst x) @ '']''))
             | None \<Rightarrow> ret ())))"

text \<open>An imported document can import again, so the depth of the recursion is counted as
  for \<open>validate_instance\<close>.\<close>

primrec process_imports ::
  "nat \<Rightarrow> pyenv \<Rightarrow> (string \<times> json) list \<Rightarrow> bool \<Rightarrow> importer" where
  "process_imports 0 env known allow_import = (\<lambda>ob path s. OutOfFuel)"
| "process_imports (Suc n) env known allow_import =
     process_imports_body env known allow_import (process_imports n env known allow_import)"

section \<open>An environment for the examples\<close>

text \<open>
  The examples below run the validators on concrete documents. None of them reaches a call
  into the library, so any environment gives the same result; this one answers every such
  call in the simplest way.
\<close>

definition env0 :: pyenv where
  "env0 =
     \<lparr>py_eq = (\<lambda>h a b. Some (a = b)),
      py_cmp = (\<lambda>op h a b. None),
      py_mod_nonzero = (\<lambda>h a b. None),
      float_nonzero = (\<lambda>f. True),
      neg_inf = Float64 0,
      pos_inf = Float64 0,
      json_dumps = (\<lambda>h v. None),
      re_match = (\<lambda>name s. False),
      re_valid = (\<lambda>p. False),
      re_search = (\<lambda>p s. False),
      int_of_str = (\<lambda>s. None),
      float_of_str = (\<lambda>s. False),
      uuid_of_str = (\<lambda>s. False),
      url_has_scheme = (\<lambda>h v. None),
      import_map = [],
      read_json_file = (\<lambda>f. None)\<rparr>"

section \<open>Example documents\<close>

text \<open>The schema and the instance of the test \<open>test_uses_addin_conflict\<close>.\<close>

definition conflict_schema :: json where
  "conflict_schema =
     JObj [(''$schema'', JStr ''https://json-structure.org/meta/core/v0/#''),
           (''$id'', JStr ''dummy''),
           (''name'', JStr ''ConflictSchema''),
           (''type'', JStr ''object''),
           (''properties'',
            JObj [(''main'', JObj [(''type'', JStr ''string'')]),
                  (''extra'', JObj [(''type'', JStr ''string'')])]),
           (''$offers'',
            JObj [(''Extra'',
                   JObj [(''properties'', JObj [(''extra'', JObj [(''type'', JStr ''number'')])])])])]"

definition conflict_instance :: json where
  "conflict_instance =
     JObj [(''main'', JStr ''hello''), (''$uses'', JArr [JStr ''Extra'']), (''extra'', JInt 123)]"

text \<open>An object with a string property \<open>a\<close> and a property \<open>b\<close> whose type is the union
  \<open>["number"]\<close>; the instance \<open>{"a": 1, "b": 2}\<close> has a wrong \<open>a\<close> and a right \<open>b\<close>.\<close>

definition union_schema :: json where
  "union_schema =
     JObj [(''type'', JStr ''object''),
           (''properties'',
            JObj [(''a'', JObj [(''type'', JStr ''string'')]),
                  (''b'', JObj [(''type'', JArr [JStr ''number''])])])]"

definition union_instance :: json where
  "union_instance = JObj [(''a'', JInt 1), (''b'', JInt 2)]"

text \<open>A document whose \<open>$schema\<close> names the extended meta, for the schema validator.\<close>

definition extended_doc :: json where
  "extended_doc =
     JObj [(''$schema'', JStr ''https://json-structure.org/meta/extended/v0/#''),
           (''$id'', JStr ''https://example.com/x'')]"

text \<open>A definition whose \<open>$ref\<close> points back to itself.\<close>

definition cyclic_schema :: json where
  "cyclic_schema =
     JObj [(''$ref'', JStr ''#/definitions/A''),
           (''definitions'', JObj [(''A'', JObj [(''$ref'', JStr ''#/definitions/A'')])])]"

text \<open>A root under the extended meta of the instance validator.\<close>

definition extended_schema :: json where
  "extended_schema =
     JObj [(''$schema'', JStr ''https://json-structure.github.io/meta/extended/v0/#''),
           (''type'', JStr ''string'')]"

text \<open>The store a result ends with, and the object a value refers to in it.\<close>

definition final_heap :: "'a res \<Rightarrow> pyheap" where
  "final_heap r = (case r of Ok _ s \<Rightarrow> heap s | Raise _ s \<Rightarrow> heap s | _ \<Rightarrow> [])"

text \<open>A store with the tuple schema \<open>{"type": "tuple", "properties": {"x": {"type": "any"},
  "y": {"type": "any"}}}\<close> at address 2 and the list \<open>[1, 2, 3]\<close> at address 3.\<close>

definition tuple_state :: vstate where
  "tuple_state =
     \<lparr>heap = [ODict [(''type'', VStr ''any'')],
               ODict [(''x'', VRef 0), (''y'', VRef 0)],
               ODict [(''type'', VStr ''tuple''), (''properties'', VRef 1)],
               OList [VInt 1, VInt 2, VInt 3]],
      errors = []\<rparr>"

text \<open>A store with the schemas \<open>{"type": "number"}\<close> and \<open>{"type": "int32"}\<close> at the
  addresses 0 and 1 and a root under the core meta at address 2.\<close>

definition numeric_state :: vstate where
  "numeric_state =
     \<lparr>heap = [ODict [(''type'', VStr ''number'')],
               ODict [(''type'', VStr ''int32'')],
               ODict [(''$schema'', VStr ''https://json-structure.github.io/meta/core/v0/#'')]],
      errors = []\<rparr>"

text \<open>The schema and the instance of the test \<open>test_one_of_fail\<close>, with the URI of the
  extended meta that \<open>validate_instance\<close> compares \<open>$schema\<close> with (the test writes
  \<open>json-structure.org\<close>, under which \<open>oneOf\<close> is not evaluated), and the store after both are
  loaded: the root is at address 9, the list of \<open>oneOf\<close> at 8, its two subschemas at 3 and 7,
  the instance at 10.\<close>

definition oneof_schema :: json where
  "oneof_schema =
     JObj [(''oneOf'',
            JArr [JObj [(''type'', JStr ''object''),
                        (''properties'', JObj [(''a'', JObj [(''type'', JStr ''string'')])]),
                        (''required'', JArr [JStr ''a''])],
                  JObj [(''type'', JStr ''object''),
                        (''properties'', JObj [(''b'', JObj [(''type'', JStr ''number'')])]),
                        (''required'', JArr [JStr ''b''])]]),
           (''$schema'', JStr ''https://json-structure.github.io/meta/extended/v0/#''),
           (''$id'', JStr ''dummy''),
           (''name'', JStr ''oneOf'')]"

definition oneof_instance :: json where
  "oneof_instance = JObj [(''a'', JStr ''hello''), (''b'', JInt 42)]"

definition oneof_state :: vstate where
  "oneof_state = \<lparr>heap = snd (load oneof_instance (snd (load oneof_schema []))), errors = []\<rparr>"

text \<open>The state a result ends with.\<close>

definition final_state :: "'a res \<Rightarrow> vstate" where
  "final_state r =
     (case r of Ok _ s \<Rightarrow> s | Raise _ s \<Rightarrow> s | _ \<Rightarrow> \<lparr>heap = [], errors = []\<rparr>)"

section \<open>Pointers as the specification reads them\<close>

text \<open>
  "Traverse objects by key" for a list of keys: each key is looked up in the object reached
  so far, and a value that is not an object holding the key gives not-found.
\<close>

fun traverse :: "pyheap \<Rightarrow> val \<Rightarrow> string list \<Rightarrow> val option" where
  "traverse h v [] = Some v"
| "traverse h v (k # ks) =
     (case dict_at h v of
        Some kvs \<Rightarrow> (case dict_get kvs k of Some v' \<Rightarrow> traverse h v' ks | None \<Rightarrow> None)
      | None \<Rightarrow> None)"

text \<open>The pointer \<open>#/seg1/.../segn\<close> with the given segments.\<close>

definition pointer_of :: "string list \<Rightarrow> string" where
  "pointer_of segs = ''#'' @ concat (map (\<lambda>seg. CHR ''/'' # seg) segs)"

text \<open>The escaping of a key that \<open>unescape\<close> undoes: \<open>~\<close> is written \<open>~0\<close> and \<open>/\<close> is
  written \<open>~1\<close>.\<close>

definition escape :: "string \<Rightarrow> string" where
  "escape k =
     concat (map (\<lambda>c. if c = CHR ''~'' then ''~0'' else if c = CHR ''/'' then ''~1'' else [c]) k)"

text \<open>The document \<open>{"a": {"b/c": 1, "b": 2}}\<close> in a store of its own.\<close>

definition pointer_doc :: json where
  "pointer_doc = JObj [(''a'', JObj [(''b/c'', JInt 1), (''b'', JInt 2)])]"

definition pointer_root :: val where
  "pointer_root = fst (load pointer_doc [])"

definition pointer_heap :: pyheap where
  "pointer_heap = snd (load pointer_doc [])"

section \<open>Chains of \<open>$ref\<close>\<close>

text \<open>
  The schema that a call continues with when its schema carries \<open>$ref\<close>: the schema is a
  dictionary, \<open>schema["$ref"]\<close> is a string and \<open>_resolve_ref\<close> does not return \<open>None\<close>.
\<close>

definition ref_target :: "pyheap \<Rightarrow> val \<Rightarrow> val \<Rightarrow> val option" where
  "ref_target h root schema =
     (case dict_at h schema of
        None \<Rightarrow> None
      | Some skvs \<Rightarrow>
          (case dict_get skvs ''$ref'' of
             Some (VStr r) \<Rightarrow>
               (if resolve_ref h root r = VNone then None else Some (resolve_ref h root r))
           | _ \<Rightarrow> None))"

text \<open>The schema reached after \<open>k\<close> links of a chain.\<close>

primrec follow :: "nat \<Rightarrow> pyheap \<Rightarrow> val \<Rightarrow> val \<Rightarrow> val option" where
  "follow 0 h root schema = Some schema"
| "follow (Suc k) h root schema =
     (case ref_target h root schema of None \<Rightarrow> None | Some t \<Rightarrow> follow k h root t)"

text \<open>The self-referential schema in a store: the definition \<open>A\<close> at address 0, the root at
  address 2.\<close>

definition cyclic_state :: vstate where
  "cyclic_state = \<lparr>heap = snd (load cyclic_schema []), errors = []\<rparr>"

text \<open>A chain of two links that ends in \<open>{"type": "string"}\<close>, and a link that does not
  resolve.\<close>

definition chain_schema :: json where
  "chain_schema =
     JObj [(''$ref'', JStr ''#/definitions/A''),
           (''definitions'',
            JObj [(''A'', JObj [(''$ref'', JStr ''#/definitions/B'')]),
                  (''B'', JObj [(''type'', JStr ''string'')]),
                  (''C'', JObj [(''$ref'', JStr ''#/definitions/D'')])])]"

definition chain_state :: vstate where
  "chain_state = \<lparr>heap = snd (load chain_schema []), errors = []\<rparr>"

section \<open>What a call leaves alone\<close>

text \<open>
  The store \<open>h\<close> extends \<open>h0\<close>: every object of \<open>h0\<close> is in \<open>h\<close> at its address, unchanged;
  \<open>h\<close> may hold new objects behind them.
\<close>

definition ext :: "pyheap \<Rightarrow> pyheap \<Rightarrow> bool" where
  "ext h0 h \<longleftrightarrow> length h0 \<le> length h \<and> take (length h0) h = h0"

text \<open>A computation that, started in a store that extends \<open>h0\<close>, ends in one that extends
  \<open>h0\<close> whenever it returns or raises.\<close>

definition frame :: "pyheap \<Rightarrow> 'a M \<Rightarrow> bool" where
  "frame h0 m \<longleftrightarrow>
     (\<forall>s. ext h0 (heap s) \<longrightarrow>
        (case m s of
           Ok x s' \<Rightarrow> ext h0 (heap s')
         | Raise e s' \<Rightarrow> ext h0 (heap s')
         | OutOfFuel \<Rightarrow> True
         | Unsupported \<Rightarrow> True))"

text \<open>
  A set \<open>I\<close> of addresses of \<open>h\<close> that holds the whole of an instance document: what an object
  at an address of \<open>I\<close> refers to is in \<open>I\<close> again, and no dictionary there has the key
  \<open>$uses\<close>. A value is inside \<open>I\<close> when it is a scalar or refers to an address of \<open>I\<close>.
\<close>

definition inside :: "nat set \<Rightarrow> val \<Rightarrow> bool" where
  "inside I v = (case v of VRef a \<Rightarrow> a \<in> I | _ \<Rightarrow> True)"

definition uses_free :: "pyheap \<Rightarrow> nat set \<Rightarrow> bool" where
  "uses_free h I \<longleftrightarrow>
     (\<forall>a \<in> I. a < length h \<and>
        (case h ! a of
           ODict kvs \<Rightarrow> \<not> dict_has kvs ''$uses'' \<and> (\<forall>kv \<in> set kvs. inside I (snd kv))
         | OList xs \<Rightarrow> (\<forall>v \<in> set xs. inside I v)))"

text \<open>A value that refers to an object allocated after \<open>h0\<close>.\<close>

definition fresh :: "pyheap \<Rightarrow> val \<Rightarrow> bool" where
  "fresh h0 v = (case v of VRef a \<Rightarrow> length h0 \<le> a | _ \<Rightarrow> False)"

text \<open>The union example in a store: the schema at address 4, the instance
  \<open>{"a": 1, "b": 2}\<close> at address 5.\<close>

definition union_state :: vstate where
  "union_state = \<lparr>heap = snd (load union_instance (snd (load union_schema []))), errors = []\<rparr>"

text \<open>The add-in conflict example in a store: the root at address 7, its \<open>properties\<close> at
  address 2, the instance at address 9.\<close>

definition conflict_state :: vstate where
  "conflict_state =
     \<lparr>heap = snd (load conflict_instance (snd (load conflict_schema []))), errors = []\<rparr>"

text \<open>An instance for the schema of the conflict example that names no add-in.\<close>

definition plain_instance :: json where
  "plain_instance = JObj [(''main'', JStr ''hello''), (''extra'', JStr ''text'')]"

section \<open>Add-in merging as the specification reads it\<close>

text \<open>
  The diagnostics for the property names of an add-in that the effective schema has
  already, and the effect of a list of merges on the effective properties: every add-in's
  properties are stored over the ones that are there, after the conflicts with them are
  reported. A step is the name of the add-in and the entries of its \<open>properties\<close>.
\<close>

definition conflicts :: "(string \<times> val) list \<Rightarrow> (string \<times> val) list \<Rightarrow> val \<Rightarrow> diag list" where
  "conflicts existing addin use =
     map (\<lambda>k. Diag ''Add-in property conflicts with existing property'' [VStr k, use] [])
       (filter (dict_has existing) (map fst addin))"

fun merge_steps ::
  "(string \<times> val) list \<Rightarrow> (val \<times> (string \<times> val) list) list \<Rightarrow> (string \<times> val) list \<times> diag list" where
  "merge_steps cur [] = (cur, [])"
| "merge_steps cur (st # rest) =
     (case merge_steps (dict_update cur (snd st)) rest of
        (fin, ds) \<Rightarrow> (fin, conflicts cur (snd st) (fst st) @ ds))"

text \<open>
  The entries of \<open>resolved.get("properties", {})\<close> for a resolved add-in schema, read from a
  store: none for a value that is not a dictionary (it is skipped) or that has no
  \<open>properties\<close>; \<open>None\<close> when \<open>properties\<close> is not a dictionary.
\<close>

definition addin_props :: "pyheap \<Rightarrow> val \<Rightarrow> (string \<times> val) list option" where
  "addin_props h resolved =
     (case dict_at h resolved of
        None \<Rightarrow> Some []
      | Some rkvs \<Rightarrow>
          (case dict_get rkvs ''properties'' of None \<Rightarrow> Some [] | Some p \<Rightarrow> dict_at h p))"

text \<open>An element of an add-in given as an array: a string is a pointer, anything else is
  the add-in schema itself.\<close>

definition resolved_ref :: "pyheap \<Rightarrow> val \<Rightarrow> val \<Rightarrow> val" where
  "resolved_ref h root ref = (case ref of VStr r \<Rightarrow> resolve_ref h root r | _ \<Rightarrow> ref)"

text \<open>
  The property entries that the name \<open>name\<close> brings, read from a store: the add-in is
  looked up in the \<open>$offers\<close> dictionary \<open>off\<close>; an array gives one list of entries per
  element, an object with \<open>$ref\<close> those of the schema the pointer resolves to, any other
  object its own. \<open>None\<close> when the name is not offered or is offered in another form.
\<close>

definition use_props :: "pyheap \<Rightarrow> val \<Rightarrow> val \<Rightarrow> string \<Rightarrow> (string \<times> val) list list option" where
  "use_props h root off name =
     (case dict_at h off of
        None \<Rightarrow> None
      | Some okvs \<Rightarrow>
          (case dict_get okvs name of
             None \<Rightarrow> None
           | Some addin \<Rightarrow>
               (case list_at h addin of
                  Some refs \<Rightarrow> those (map (\<lambda>ref. addin_props h (resolved_ref h root ref)) refs)
                | None \<Rightarrow>
                    (case dict_at h addin of
                       None \<Rightarrow> None
                     | Some akvs \<Rightarrow>
                         (case dict_get akvs ''$ref'' of
                            None \<Rightarrow> map_option (\<lambda>ps. [ps]) (addin_props h addin)
                          | Some (VStr r) \<Rightarrow>
                              map_option (\<lambda>ps. [ps]) (addin_props h (resolve_ref h root r))
                          | Some _ \<Rightarrow> None)))))"

text \<open>The steps for a list of names, given the lists of entries each name brings.\<close>

definition addin_steps ::
  "string list \<Rightarrow> (string \<times> val) list list list \<Rightarrow> (val \<times> (string \<times> val) list) list" where
  "addin_steps names psss = concat (map2 (\<lambda>n pss. map (Pair (VStr n)) pss) names psss)"

text \<open>The entries of \<open>schema["properties"]\<close>.\<close>

definition effective_properties :: "pyheap \<Rightarrow> val \<Rightarrow> (string \<times> val) list option" where
  "effective_properties h schema =
     (case getitem_str h schema ''properties'' of None \<Rightarrow> None | Some p \<Rightarrow> dict_at h p)"

text \<open>
  A schema that offers add-ins in every form: \<open>Extra\<close> as an object, \<open>More\<close> as an array of
  one pointer, \<open>Ref\<close> as an object with \<open>$ref\<close>, \<open>Bare\<close> as a pointer. One instance names
  the first three and a reserved name, another names \<open>Bare\<close>. In the store the root is at
  address 17, its \<open>properties\<close> at 2, \<open>$offers\<close> at 8 and the first instance at 19.
\<close>

definition addins_schema :: json where
  "addins_schema =
     JObj [(''type'', JStr ''object''),
           (''properties'',
            JObj [(''main'', JObj [(''type'', JStr ''string'')]),
                  (''extra'', JObj [(''type'', JStr ''string'')])]),
           (''$offers'',
            JObj [(''Extra'', JObj [(''properties'', JObj [(''extra'', JObj [(''type'', JStr ''number'')])])]),
                  (''More'', JArr [JStr ''#/definitions/M'']),
                  (''Ref'', JObj [(''$ref'', JStr ''#/definitions/N'')]),
                  (''Bare'', JStr ''#/definitions/M'')]),
           (''definitions'',
            JObj [(''M'',
                   JObj [(''properties'',
                          JObj [(''more'', JObj [(''type'', JStr ''boolean'')]),
                                (''extra'', JObj [(''type'', JStr ''boolean'')])])]),
                  (''N'',
                   JObj [(''properties'', JObj [(''more'', JObj [(''type'', JStr ''null'')])])])])]"

definition addins_instance :: json where
  "addins_instance =
     JObj [(''main'', JStr ''hello''),
           (''$uses'',
            JArr [JStr ''Extra'', JStr ''JSONStructureValidation'', JStr ''More'', JStr ''Ref'']),
           (''extra'', JBool True), (''more'', JBool True)]"

definition bare_instance :: json where
  "bare_instance = JObj [(''main'', JStr ''hello''), (''$uses'', JArr [JStr ''Bare'']), (''more'', JInt 1)]"

definition addins_state :: vstate where
  "addins_state = \<lparr>heap = snd (load addins_instance (snd (load addins_schema []))), errors = []\<rparr>"

section \<open>Properties\<close>

subsection \<open>The schema validator's enabled extensions\<close>

text \<open>
  C3. With the extended flag set, \<open>_check_enabled_extensions\<close> runs on the root document.
  For a document whose \<open>$schema\<close> names the extended meta (and that has no \<open>$uses\<close>) it
  enables nothing: the test for \<open>"extended"\<close> guards a block that only handles
  \<open>"validation"\<close>.
\<close>

theorem extended_meta_enables_nothing:
  "(case load extended_doc [] of (doc, h) \<Rightarrow> check_enabled_extensions h doc {}) = Some {}"
  by code_simp

text \<open>The validation meta does enable both extensions, for every document and every
  earlier set, provided the call returns.\<close>

lemma validation_meta_enables_both:
  assumes "dict_at h doc = Some kvs"
    and "dict_get kvs ''$schema'' = Some (VStr uri)"
    and "is_substring ''validation'' uri"
    and "check_enabled_extensions h doc enabled = Some en"
  shows "''JSONStructureConditionalComposition'' \<in> en \<and> ''JSONStructureValidation'' \<in> en"
proof -
  have mono: "\<And>exts e0 e1. add_used_extensions exts e0 = Some e1 \<Longrightarrow> e0 \<subseteq> e1"
  proof -
    fix exts e0 e1
    show "add_used_extensions exts e0 = Some e1 \<Longrightarrow> e0 \<subseteq> e1"
    proof (induction exts arbitrary: e0)
      case Nil
      then show ?case by simp
    next
      case (Cons x xs)
      then show ?case
        by (cases x) (auto split: if_splits dest!: Cons.IH)
    qed
  qed
  let ?en0 = "insert ''JSONStructureValidation''
                (insert ''JSONStructureConditionalComposition'' enabled)"
  from assms have "en = ?en0 \<or> (\<exists>exts. add_used_extensions exts ?en0 = Some en)"
    by (auto simp: check_enabled_extensions_def in_str_def Let_def
             split: option.splits if_splits)
  then show ?thesis using mono by auto
qed

subsection \<open>The diagnostic buffer\<close>

text \<open>
  C2. The property \<open>b\<close> of \<open>union_schema\<close> is validated after the property \<open>a\<close>. The
  diagnostic for \<open>a\<close> is in the buffer when the union for \<open>b\<close> is tried; the branch
  \<open>number\<close> succeeds, the loop ends with \<open>break\<close>, and the buffer stays the empty scratch
  list: the call returns no diagnostic for an instance whose \<open>a\<close> is not a string.
\<close>

theorem union_success_discards_buffer:
  "returned (run_validate 3 env0 union_schema union_instance) = Some []"
  by code_simp

text \<open>Without the property \<open>b\<close> the diagnostic for \<open>a\<close> is returned.\<close>

lemma union_schema_reports_a:
  "returned (run_validate 3 env0 union_schema (JObj [(''a'', JInt 1)]))
   = Some [Diag ''Expected string'' [VStr ''int''] ''#/a'']"
  by code_simp

subsection \<open>Reading the store and running the monad\<close>

lemmas monad_defs = ret_def bnd_def seq_def raise_def unsupported_def eval_def peek_def
  emit_def get_errors_def set_errors_def alloc_def

lemma dict_at_in_str: "dict_at h c = Some kvs \<Longrightarrow> in_str h k c = Some (dict_has kvs k)"
  unfolding dict_at_def in_str_def obj_at_def
  by (auto split: val.splits option.splits obj.splits if_splits)

lemma dict_at_getitem_str: "dict_at h c = Some kvs \<Longrightarrow> getitem_str h c k = dict_get kvs k"
  unfolding getitem_str_def by simp

lemma dict_at_not_list: "dict_at h c = Some kvs \<Longrightarrow> list_at h c = None"
  unfolding dict_at_def list_at_def by (auto split: option.splits obj.splits)

lemma list_at_not_dict: "list_at h c = Some xs \<Longrightarrow> dict_at h c = None"
  unfolding dict_at_def list_at_def by (auto split: option.splits obj.splits)

lemma list_at_in_str: "list_at h c = Some xs \<Longrightarrow> in_str h k c = Some (VStr k \<in> set xs)"
  unfolding list_at_def in_str_def obj_at_def
  by (auto split: val.splits option.splits obj.splits if_splits)

lemma dict_at_not_none: "dict_at h c = Some kvs \<Longrightarrow> c \<noteq> VNone"
  unfolding dict_at_def obj_at_def by auto

lemma dict_at_py_len: "dict_at h c = Some kvs \<Longrightarrow> py_len h c = Some (length kvs)"
  unfolding dict_at_def py_len_def obj_at_def
  by (auto split: val.splits option.splits obj.splits if_splits)

lemma scalar_not_container [simp]:
  "dict_at h (VBool b) = None" "list_at h (VBool b) = None"
  "dict_at h (VStr t) = None" "list_at h (VStr t) = None"
  "dict_at h VNone = None" "list_at h VNone = None"
  "dict_at h (VInt i) = None" "list_at h (VInt i) = None"
  "dict_at h (VFloat f) = None" "list_at h (VFloat f) = None"
  by (simp_all add: dict_at_def list_at_def obj_at_def)

lemma quiet_prelude:
  assumes "dict_at (heap s) root = Some rkvs"
    and "dict_get rkvs ''$schema'' \<noteq> Some (VStr EXTENDED_META)"
    and "dict_at (heap s) instance = None"
  shows "auto_enable root instance schema path s = Ok () s"
  using assms by (simp add: auto_enable_def root_meta_is_def uses_of_instance_def monad_defs)

lemma no_uses_root:
  assumes "dict_at (heap s) root = Some rkvs" and "dict_get rkvs ''$uses'' = None"
  shows "root_uses_has root name s = Ok False s"
  using assms by (simp add: root_uses_has_def monad_defs dict_at_in_str dict_has_def dict_get_def)

text \<open>A call on a schema with a string type tag and none of \<open>$ref\<close>, \<open>$extends\<close>,
  \<open>abstract\<close>, under a root without \<open>$uses\<close> that is not the extended meta, for an
  instance that is no dictionary: the call is the type-based validation and what follows it.\<close>

lemma plain_call:
  assumes root: "dict_at (heap s) root = Some rkvs"
    and meta: "dict_get rkvs ''$schema'' \<noteq> Some (VStr EXTENDED_META)"
    and uses: "dict_get rkvs ''$uses'' = None"
    and schema: "dict_at (heap s) schema = Some skvs"
    and tag: "dict_get skvs ''type'' = Some (VStr tag)" "tag \<noteq> []"
    and keys: "dict_get skvs ''$ref'' = None" "dict_get skvs ''$extends'' = None"
      "dict_get skvs ''abstract'' \<noteq> Some (VBool True)"
    and inst: "dict_at (heap s) instance = None"
  shows "validate_instance (Suc n) env root instance schema path s
      = seq (check_type env (validate_instance n env root) schema tag instance path)
            (after_type_check env root (validate_instance n env root) schema instance path) s"
proof -
  have ne: "schema \<noteq> VNone" using schema by (rule dict_at_not_none)
  have pre: "auto_enable root instance schema path s = Ok () s"
    using root meta inst by (rule quiet_prelude)
  have nu: "\<And>name. root_uses_has root name s = Ok False s"
    using root uses by (rule no_uses_root)
  have ref: "in_str (heap s) ''$ref'' schema = Some False"
    using schema keys(1) by (simp add: dict_at_in_str dict_has_def dict_get_def)
  show ?thesis
    using ne pre nu ref schema tag keys inst
    by (simp add: validate_body_def validate_typed_def string_typed_def finish_typed_def
        apply_extends_def uses_of_instance_def truthy_def monad_defs)
qed

lemma plain_after:
  assumes "dict_at (heap s) root = Some rkvs" and "dict_get rkvs ''$uses'' = None"
    and "dict_at (heap s) schema = Some skvs"
    and "dict_get skvs ''const'' = None" "dict_get skvs ''enum'' = None"
  shows "after_type_check env root rec schema instance path s = Ok () s"
  using assms
  by (simp add: after_type_check_def no_uses_root const_enum_def monad_defs)


subsection \<open>Tuples\<close>

text \<open>
  C7. A schema with type \<open>tuple\<close> (no \<open>$ref\<close>, \<open>$extends\<close>, \<open>abstract\<close>, \<open>const\<close> or
  \<open>enum\<close>) whose \<open>properties\<close> is a dictionary, an instance that is a list, a root that is
  not the extended meta and has no \<open>$uses\<close>. When the length of the list differs from the
  number of keys of \<open>properties\<close>, the call adds the arity diagnostic and nothing else.
  When they are equal, the call validates the elements in order, element \<open>i\<close> against the
  schema of the \<open>i\<close>-th key of \<open>properties\<close> in insertion order at the path of that key,
  and then does what follows every type check; no arity diagnostic is added.
\<close>

theorem tuple_arity_and_order:
  assumes root: "dict_at (heap s) root = Some rkvs"
    and meta: "dict_get rkvs ''$schema'' \<noteq> Some (VStr EXTENDED_META)"
    and uses: "dict_get rkvs ''$uses'' = None"
    and schema: "dict_at (heap s) schema = Some skvs"
    and tag: "dict_get skvs ''type'' = Some (VStr ''tuple'')"
    and keys: "dict_get skvs ''$ref'' = None" "dict_get skvs ''$extends'' = None"
      "dict_get skvs ''abstract'' \<noteq> Some (VBool True)"
      "dict_get skvs ''const'' = None" "dict_get skvs ''enum'' = None"
    and props: "dict_get skvs ''properties'' = Some props" "dict_at (heap s) props = Some pkvs"
    and inst: "list_at (heap s) instance = Some items"
  shows "validate_instance (Suc n) env root instance schema path s =
     (if length items \<noteq> length pkvs
      then Ok () (s\<lparr>errors := errors s @ [TupleLength path (length items) (length pkvs)]\<rparr>)
      else seq (for_guarded [props, instance] (zip pkvs items)
                  (\<lambda>x. validate_instance n env root (snd x) (snd (fst x))
                         (path @ ''/'' @ fst (fst x))))
               (after_type_check env root (validate_instance n env root) schema instance path) s)"
proof -
  have nd: "dict_at (heap s) instance = None" using inst by (rule list_at_not_dict)
  have call: "validate_instance (Suc n) env root instance schema path s
      = seq (check_type env (validate_instance n env root) schema ''tuple'' instance path)
            (after_type_check env root (validate_instance n env root) schema instance path) s"
    using root meta uses schema tag _ keys(1-3) nd by (rule plain_call) simp
  have ct: "check_type env rec schema ''tuple'' instance path s
      = (if length items \<noteq> length pkvs
         then emit (TupleLength path (length items) (length pkvs)) s
         else for_guarded [props, instance] (zip pkvs items)
                (\<lambda>x. rec (snd x) (snd (fst x)) (path @ ''/'' @ fst (fst x))) s)" for rec
    using inst schema props
    by (simp add: check_type_def PRIMITIVE_TAGS_def validate_tuple_def is_list_def
        dict_at_py_len monad_defs)
  show ?thesis
  proof (cases "length items \<noteq> length pkvs")
    case True
    have "after_type_check env root (validate_instance n env root) schema instance path
            (s\<lparr>errors := errors s @ [TupleLength path (length items) (length pkvs)]\<rparr>)
          = Ok () (s\<lparr>errors := errors s @ [TupleLength path (length items) (length pkvs)]\<rparr>)"
      by (rule plain_after[where rkvs = rkvs and skvs = skvs])
         (use root uses schema keys in simp_all)
    with True call ct show ?thesis by (simp add: seq_def bnd_def emit_def)
  next
    case False
    with call ct show ?thesis by (simp add: seq_def bnd_def)
  qed
qed


text \<open>The example of the specification: three elements against two declared properties.\<close>

theorem tuple_arity_and_order_witness:
  "validate_instance 1 env0 (VRef 2) (VRef 3) (VRef 2) ''#'' tuple_state
   = Ok () (tuple_state\<lparr>errors := [TupleLength ''#'' 3 2]\<rparr>)"
  using tuple_arity_and_order [where s = tuple_state and root = "VRef 2" and schema = "VRef 2"
      and ?instance = "VRef 3" and props = "VRef 1" and n = 0 and env = env0 and path = "''#''"]
  by (simp add: tuple_state_def dict_at_def list_at_def obj_at_def dict_get_def)

subsection \<open>Booleans and the numeric type tags\<close>

text \<open>
  C10. For a boolean instance and a schema with a numeric type tag (no \<open>$ref\<close>,
  \<open>$extends\<close>, \<open>abstract\<close>, \<open>const\<close> or \<open>enum\<close>; a root that is not the extended meta and
  has no \<open>$uses\<close>): the tag \<open>number\<close> adds the type mismatch diagnostic, the tags
  \<open>int32\<close>, \<open>uint32\<close>, \<open>float\<close> and \<open>double\<close> add nothing, since \<open>isinstance(True, int)\<close>
  holds in Python; the range check of \<open>int32\<close> and \<open>uint32\<close> reads \<open>True\<close> as 1 and
  \<open>False\<close> as 0.
\<close>

theorem boolean_numeric_tags:
  assumes root: "dict_at (heap s) root = Some rkvs"
    and meta: "dict_get rkvs ''$schema'' \<noteq> Some (VStr EXTENDED_META)"
    and uses: "dict_get rkvs ''$uses'' = None"
    and schema: "dict_at (heap s) schema = Some skvs"
    and tag: "dict_get skvs ''type'' = Some (VStr tag)"
    and keys: "dict_get skvs ''$ref'' = None" "dict_get skvs ''$extends'' = None"
      "dict_get skvs ''abstract'' \<noteq> Some (VBool True)"
      "dict_get skvs ''const'' = None" "dict_get skvs ''enum'' = None"
  shows "(tag = ''number'' \<longrightarrow>
            validate_instance (Suc n) env root (VBool b) schema path s
            = Ok () (s\<lparr>errors := errors s @ [Diag ''Expected number'' [VStr ''bool''] path]\<rparr>))
       \<and> (tag \<in> {''int32'', ''uint32'', ''float'', ''double''} \<longrightarrow>
            validate_instance (Suc n) env root (VBool b) schema path s = Ok () s)
       \<and> int_value (VBool True) = 1 \<and> int_value (VBool False) = 0"
proof -
  let ?rec = "validate_instance n env root"
  have call: "validate_instance (Suc n) env root (VBool b) schema path s
      = seq (check_type env ?rec schema tag (VBool b) path)
            (after_type_check env root ?rec schema (VBool b) path) s"
    if "tag \<noteq> []"
    using root meta uses schema tag that keys(1-3) by (rule plain_call) simp
  have post: "after_type_check env root ?rec schema (VBool b) path s' = Ok () s'"
    if "heap s' = heap s" for s'
    by (rule plain_after[where rkvs = rkvs and skvs = skvs])
       (use that root uses schema keys in simp_all)
  have num: "check_type env ?rec schema ''number'' (VBool b) path s
      = Ok () (s\<lparr>errors := errors s @ [Diag ''Expected number'' [VStr ''bool''] path]\<rparr>)"
    by (simp add: check_type_def PRIMITIVE_TAGS_def check_primitive_def emit_got_def
        type_name_def is_bool_def monad_defs)
  have a1: "check_type env ?rec schema ''int32'' (VBool b) path s = Ok () s"
    by (simp add: check_type_def PRIMITIVE_TAGS_def check_primitive_def check_int_range_def
        is_int_def int_value_def monad_defs)
  have a2: "check_type env ?rec schema ''uint32'' (VBool b) path s = Ok () s"
    by (simp add: check_type_def PRIMITIVE_TAGS_def check_primitive_def check_int_range_def
        is_int_def int_value_def monad_defs)
  have a3: "check_type env ?rec schema ''float'' (VBool b) path s = Ok () s"
    by (simp add: check_type_def PRIMITIVE_TAGS_def check_primitive_def
        is_int_or_float_def monad_defs)
  have a4: "check_type env ?rec schema ''double'' (VBool b) path s = Ok () s"
    by (simp add: check_type_def PRIMITIVE_TAGS_def check_primitive_def
        is_int_or_float_def monad_defs)
  have fin: "validate_instance (Suc n) env root (VBool b) schema path s = Ok () s'"
    if "tag \<noteq> []"
      and "check_type env ?rec schema tag (VBool b) path s = Ok () s'"
      and "heap s' = heap s" for s'
    using call[OF that(1)] that(2) post[OF that(3)] by (simp add: seq_def bnd_def)
  have number: "validate_instance (Suc n) env root (VBool b) schema path s
        = Ok () (s\<lparr>errors := errors s @ [Diag ''Expected number'' [VStr ''bool''] path]\<rparr>)"
    if t: "tag = ''number''"
    by (rule fin) (use t num in simp_all)
  have accepted: "validate_instance (Suc n) env root (VBool b) schema path s = Ok () s"
    if "tag \<in> {''int32'', ''uint32'', ''float'', ''double''}"
  proof -
    from that consider "tag = ''int32''" | "tag = ''uint32''" | "tag = ''float''" | "tag = ''double''"
      by blast
    then show ?thesis
    proof cases
      case 1 show ?thesis by (rule fin) (use 1 a1 in simp_all)
    next
      case 2 show ?thesis by (rule fin) (use 2 a2 in simp_all)
    next
      case 3 show ?thesis by (rule fin) (use 3 a3 in simp_all)
    next
      case 4 show ?thesis by (rule fin) (use 4 a4 in simp_all)
    qed
  qed
  show ?thesis using number accepted by (simp add: int_value_def)
qed

text \<open>\<open>True\<close> against \<open>{"type": "number"}\<close> and against \<open>{"type": "int32"}\<close>.\<close>

theorem boolean_numeric_tags_witness:
  "validate_instance 1 env0 (VRef 2) (VBool True) (VRef 0) ''#'' numeric_state
   = Ok () (numeric_state\<lparr>errors := [Diag ''Expected number'' [VStr ''bool''] ''#'']\<rparr>)
   \<and> validate_instance 1 env0 (VRef 2) (VBool True) (VRef 1) ''#'' numeric_state
     = Ok () numeric_state"
  using boolean_numeric_tags [where s = numeric_state and root = "VRef 2" and schema = "VRef 0"
      and tag = "''number''" and b = True and n = 0 and env = env0 and path = "''#''"]
    boolean_numeric_tags [where s = numeric_state and root = "VRef 2" and schema = "VRef 1"
      and tag = "''int32''" and b = True and n = 0 and env = env0 and path = "''#''"]
  by (simp add: numeric_state_def dict_at_def obj_at_def dict_get_def EXTENDED_META_def)

subsection \<open>\<open>oneOf\<close>\<close>

lemma show_nat_small: "show_nat 0 = ''0''" "show_nat (Suc 0) = ''1''"
  by (simp_all add: show_nat.simps)

text \<open>The loop of \<open>oneOf\<close> leaves the buffer as it found it, and every subschema is either
  counted as valid or listed with the diagnostics of its trial, which are not empty.\<close>

lemma oneof_loop_inv:
  assumes "oneof_loop rec instance path snap xs n acc s = Ok r s'"
    and "\<forall>d \<in> set acc. snd d \<noteq> []"
  shows "errors s' = errors s
       \<and> fst r + length (snd r) = n + length acc + length xs
       \<and> (\<forall>d \<in> set (snd r). snd d \<noteq> [])"
  using assms
proof (induction xs arbitrary: n acc s)
  case Nil
  then show ?case by (auto simp: ret_def)
next
  case (Cons x xs)
  let ?p = "path @ ''/oneOf['' @ show_nat (fst x) @ '']''"
  from Cons.prems(1) obtain s1 where
    r1: "rec instance (snd x) ?p (s\<lparr>errors := []\<rparr>) = Ok () s1"
    and rest: "(if errors s1 = [] then oneof_loop rec instance path snap xs (n + 1) acc
                else oneof_loop rec instance path snap xs n (acc @ [(fst x, errors s1)]))
               (s1\<lparr>errors := errors s\<rparr>) = Ok r s'"
    by (auto simp: monad_defs same_containers_def split: res.splits if_splits)
  show ?case
  proof (cases "errors s1 = []")
    case True
    with rest have "oneof_loop rec instance path snap xs (n + 1) acc (s1\<lparr>errors := errors s\<rparr>) = Ok r s'"
      by simp
    from Cons.IH[OF this Cons.prems(2)] show ?thesis by simp
  next
    case False
    with rest have "oneof_loop rec instance path snap xs n (acc @ [(fst x, errors s1)])
        (s1\<lparr>errors := errors s\<rparr>) = Ok r s'"
      by simp
    from Cons.IH[OF this] Cons.prems(2) False show ?thesis by simp
  qed
qed

text \<open>
  The loop of \<open>oneOf\<close> against its trials. The subschemas \<open>xs\<close> are tried in order; \<open>ts ! i\<close>
  is the state in which trial \<open>i\<close> returns, having started on an empty buffer in the state the
  trial before it returned in (the first in \<open>s\<close>). The loop then returns the number of trials
  that left the buffer empty and lists the others with their diagnostics.
\<close>

lemma oneof_loop_trials:
  assumes "length ts = length xs" and "length js = length xs"
    and "\<forall>i < length xs.
           rec instance (xs ! i) (path @ ''/oneOf['' @ show_nat (js ! i) @ '']'')
             (((s # ts) ! i)\<lparr>errors := []\<rparr>) = Ok () (ts ! i)"
    and "\<forall>i < length xs. list_all (\<lambda>c. obj_at (heap (ts ! i)) (fst c) = snd c) snap"
  shows "oneof_loop rec instance path snap (zip js xs) n acc s
         = Ok (n + length (filter (\<lambda>t. errors t = []) ts),
               acc @ filter (\<lambda>d. snd d \<noteq> []) (zip js (map errors ts)))
              ((last (s # ts))\<lparr>errors := errors s\<rparr>)"
  using assms
proof (induction xs arbitrary: ts js n acc s)
  case Nil
  then show ?case by (simp add: ret_def)
next
  case (Cons x xs)
  from Cons.prems(1) obtain t ts' where ts: "ts = t # ts'" and len: "length ts' = length xs"
    by (cases ts) auto
  from Cons.prems(2) obtain j js' where js: "js = j # js'" and lenj: "length js' = length xs"
    by (cases js) auto
  let ?s1 = "t\<lparr>errors := errors s\<rparr>"
  from Cons.prems(3) ts js have first:
    "rec instance x (path @ ''/oneOf['' @ show_nat j @ '']'') (s\<lparr>errors := []\<rparr>) = Ok () t"
    by auto
  from Cons.prems(4) ts have same: "list_all (\<lambda>c. obj_at (heap t) (fst c) = snd c) snap"
    by auto
  have trials': "\<forall>i < length xs.
           rec instance (xs ! i) (path @ ''/oneOf['' @ show_nat (js' ! i) @ '']'')
             (((?s1 # ts') ! i)\<lparr>errors := []\<rparr>) = Ok () (ts' ! i)"
  proof (intro allI impI)
    fix i assume i: "i < length xs"
    with Cons.prems(3) have
      "rec instance ((x # xs) ! Suc i) (path @ ''/oneOf['' @ show_nat (js ! Suc i) @ '']'')
         (((s # ts) ! Suc i)\<lparr>errors := []\<rparr>) = Ok () (ts ! Suc i)"
      by (auto dest!: spec[of _ "Suc i"])
    with ts js have
      "rec instance (xs ! i) (path @ ''/oneOf['' @ show_nat (js' ! i) @ '']'')
         (((t # ts') ! i)\<lparr>errors := []\<rparr>) = Ok () (ts' ! i)"
      by simp
    moreover have "((?s1 # ts') ! i)\<lparr>errors := []\<rparr> = ((t # ts') ! i)\<lparr>errors := []\<rparr>"
      by (cases i) simp_all
    ultimately show "rec instance (xs ! i) (path @ ''/oneOf['' @ show_nat (js' ! i) @ '']'')
             (((?s1 # ts') ! i)\<lparr>errors := []\<rparr>) = Ok () (ts' ! i)"
      by simp
  qed
  have same': "\<forall>i < length xs. list_all (\<lambda>c. obj_at (heap (ts' ! i)) (fst c) = snd c) snap"
  proof (intro allI impI)
    fix i assume i: "i < length xs"
    with Cons.prems(4) have "list_all (\<lambda>c. obj_at (heap (ts ! Suc i)) (fst c) = snd c) snap"
      by (auto dest!: spec[of _ "Suc i"])
    with ts show "list_all (\<lambda>c. obj_at (heap (ts' ! i)) (fst c) = snd c) snap"
      by simp
  qed
  note IH = Cons.IH[OF len lenj trials' same']
  have last: "(last (?s1 # ts'))\<lparr>errors := errors s\<rparr> = (last (s # ts))\<lparr>errors := errors s\<rparr>"
    using ts by (cases ts') simp_all
  show ?case
    unfolding js zip_Cons_Cons oneof_loop.simps
    using first same IH[of "n + 1" acc] IH[of n "acc @ [(j, errors t)]"] last
    by (simp add: bnd_def seq_def get_errors_def set_errors_def same_containers_def ts)
qed

lemma all_less_two: "(\<forall>i < Suc (Suc 0). P i) \<longleftrightarrow> P 0 \<and> P (Suc 0)"
  by (auto simp: less_Suc_eq)

text \<open>
  C6. Let the subschemas of \<open>oneOf\<close> be \<open>xs\<close> and let every one of them be tried: trial \<open>i\<close>
  is the call of \<open>validate_instance\<close> on subschema \<open>xs ! i\<close> with an empty buffer, in the
  store the trial before it left, and it returns in the state \<open>ts ! i\<close>. A subschema is passed
  when its trial leaves the buffer empty. Then the block for \<open>oneOf\<close> returns with the buffer
  from before the block, followed by one diagnostic exactly when the number of subschemas
  passed is not 1; the diagnostic carries that number and, for every subschema that is not
  passed, its index and the diagnostics of its trial. In particular, when the trials of
  \<open>oneOf: [A, B]\<close> both leave the buffer empty, the number is 2 and the diagnostic is there.
\<close>

theorem oneof_exactly_one:
  assumes subs: "getitem_str (heap s) schema ''oneOf'' = Some subs"
    and xs: "py_iter (heap s) subs = Some xs"
    and len: "length ts = length xs"
    and trials: "\<forall>i < length xs.
           rec instance (xs ! i) (path @ ''/oneOf['' @ show_nat i @ '']'')
             (((s # ts) ! i)\<lparr>errors := []\<rparr>) = Ok () (ts ! i)"
    and same: "\<forall>i < length xs. obj_at (heap (ts ! i)) subs = obj_at (heap s) subs"
  shows "oneof_block rec schema instance path s
         = Ok () ((last (s # ts))
             \<lparr>errors := errors s @
                (if length (filter (\<lambda>t. errors t = []) ts) = 1 then []
                 else [OneOfFailed path (length (filter (\<lambda>t. errors t = []) ts))
                         (filter (\<lambda>d. snd d \<noteq> []) (enumerate_from0 (map errors ts)))])\<rparr>)"
proof -
  have snap: "\<forall>i < length xs.
      list_all (\<lambda>c. obj_at (heap (ts ! i)) (fst c) = snd c) (snapshot [subs] s)"
    using same by (simp add: snapshot_def)
  have tr: "\<forall>i < length xs.
           rec instance (xs ! i) (path @ ''/oneOf['' @ show_nat ([0..<length xs] ! i) @ '']'')
             (((s # ts) ! i)\<lparr>errors := []\<rparr>) = Ok () (ts ! i)"
    using trials by simp
  have lj: "length [0..<length xs] = length xs" by simp
  note loop = oneof_loop_trials[where n = 0 and acc = "[]" and s = s and ts = ts
      and xs = xs and rec = rec and path = path and snap = "snapshot [subs] s"
      and ?instance = "instance" and js = "[0..<length xs]", OF len lj tr snap]
  show ?thesis
    using subs xs loop len
    by (simp add: oneof_block_def enumerate_from0_def bnd_def eval_def emit_def ret_def)
qed


text \<open>The schema and the instance of the test \<open>test_one_of_fail\<close> under the meta URI the
  validator knows: the instance has both \<open>a\<close> and \<open>b\<close>, both subschemas are passed, and the
  block reports two matches.\<close>

theorem oneof_exactly_one_witness:
  "oneof_block (validate_instance 2 env0 (VRef 9)) (VRef 9) (VRef 10) ''#'' oneof_state
   = Ok () (final_state
              (validate_instance 2 env0 (VRef 9) (VRef 10) (VRef 7) ''#/oneOf[1]''
                 (final_state
                    (validate_instance 2 env0 (VRef 9) (VRef 10) (VRef 3) ''#/oneOf[0]''
                       oneof_state)))
            \<lparr>errors := [OneOfFailed ''#'' 2 []]\<rparr>)"
proof -
  define rec where "rec = validate_instance 2 env0 (VRef 9)"
  define s1 where "s1 = final_state (rec (VRef 10) (VRef 3) ''#/oneOf[0]'' oneof_state)"
  define s2 where "s2 = final_state (rec (VRef 10) (VRef 7) ''#/oneOf[1]'' s1)"
  have e: "errors oneof_state = []" "oneof_state\<lparr>errors := []\<rparr> = oneof_state"
    by (simp_all add: oneof_state_def)
  have h1: "getitem_str (heap oneof_state) (VRef 9) ''oneOf'' = Some (VRef 8)"
    by code_simp
  have h2: "py_iter (heap oneof_state) (VRef 8) = Some [VRef 3, VRef 7]"
    by code_simp
  have h3: "rec (VRef 10) (VRef 3) ''#/oneOf[0]'' oneof_state = Ok () s1"
    unfolding s1_def rec_def by code_simp
  have h4: "errors s1 = []"
    unfolding s1_def rec_def by code_simp
  have h5: "obj_at (heap s1) (VRef 8) = obj_at (heap oneof_state) (VRef 8)"
    unfolding s1_def rec_def by code_simp
  have h6: "rec (VRef 10) (VRef 7) ''#/oneOf[1]'' s1 = Ok () s2"
    unfolding s2_def s1_def rec_def by code_simp
  have h7: "errors s2 = []"
    unfolding s2_def s1_def rec_def by code_simp
  have h8: "obj_at (heap s2) (VRef 8) = obj_at (heap oneof_state) (VRef 8)"
    unfolding s2_def s1_def rec_def by code_simp
  from h4 have c1: "s1\<lparr>errors := []\<rparr> = s1" by simp
  have trials: "\<forall>i < length [VRef 3, VRef 7].
      rec (VRef 10) ([VRef 3, VRef 7] ! i) (''#'' @ ''/oneOf['' @ show_nat i @ '']'')
        (((oneof_state # [s1, s2]) ! i)\<lparr>errors := []\<rparr>) = Ok () ([s1, s2] ! i)"
    using h3 h6 by (simp add: all_less_two show_nat_small e(2) c1)
  have same: "\<forall>i < length [VRef 3, VRef 7].
      obj_at (heap ([s1, s2] ! i)) (VRef 8) = obj_at (heap oneof_state) (VRef 8)"
    using h5 h8 by (simp add: all_less_two)
  have len: "length [s1, s2] = length [VRef 3, VRef 7]"
    by simp
  from oneof_exactly_one [where s = oneof_state and schema = "VRef 9" and subs = "VRef 8"
      and xs = "[VRef 3, VRef 7]" and ts = "[s1, s2]" and rec = rec
      and ?instance = "VRef 10" and path = "''#''", OF h1 h2 len trials same] h4 h7 e
  have "oneof_block rec (VRef 9) (VRef 10) ''#'' oneof_state
        = Ok () (s2\<lparr>errors := [OneOfFailed ''#'' 2 []]\<rparr>)"
    by (simp add: enumerate_from0_def)
  then show ?thesis
    unfolding s2_def s1_def rec_def .
qed

subsection \<open>Pointer resolution\<close>

lemma split_on_nonempty: "split_on c s \<noteq> []"
  by (induction s) (auto split: list.splits)

lemma split_on_append:
  "c \<notin> set seg \<Longrightarrow> split_on c (seg @ r) = (seg @ hd (split_on c r)) # tl (split_on c r)"
proof (induction seg)
  case Nil
  then show ?case using split_on_nonempty[of c r] by simp
next
  case (Cons x seg)
  then show ?case by auto
qed

lemma split_on_join:
  "\<forall>seg \<in> set segs. c \<notin> set seg \<Longrightarrow>
   split_on c (concat (map (\<lambda>seg. c # seg) segs)) = [] # segs"
proof (induction segs)
  case Nil
  then show ?case by simp
next
  case (Cons seg segs)
  then show ?case by (simp add: split_on_append)
qed

lemma split_on_pointer:
  assumes "\<forall>seg \<in> set segs. CHR ''/'' \<notin> set seg"
  shows "split_on (CHR ''/'') (pointer_of segs) = ''#'' # segs"
  using split_on_append[of "CHR ''/''" "''#''" "concat (map (\<lambda>seg. CHR ''/'' # seg) segs)"]
    split_on_join[OF assms]
  by (simp add: pointer_of_def)

lemma lstrip_pointer:
  "dropWhile (\<lambda>c. c = CHR ''#'') (pointer_of segs) = concat (map (\<lambda>seg. CHR ''/'' # seg) segs)"
  by (cases segs) (simp_all add: pointer_of_def)

lemma resolve_parts_traverse:
  "\<forall>seg \<in> set segs. seg \<noteq> [] \<Longrightarrow>
   resolve_parts h v segs
   = (case traverse h v (map unescape segs) of Some x \<Rightarrow> x | None \<Rightarrow> VNone)"
  by (induction segs arbitrary: v) (auto split: option.splits)

lemma check_parts_traverse:
  "check_parts h v segs path = [] \<longleftrightarrow> traverse h v (map unescape segs) \<noteq> None"
  by (induction segs arbitrary: v) (auto split: option.splits)

text \<open>Unescaping undoes escaping, which is what the order \<open>~1\<close> before \<open>~0\<close> is for.\<close>

lemma replace2_skip: "x \<noteq> a \<Longrightarrow> replace2 a b new (x # xs) = x # replace2 a b new xs"
  by (cases xs) simp_all

lemma unescape_slash:
  "replace2 (CHR ''~'') (CHR ''1'') ''/'' (escape k)
   = concat (map (\<lambda>c. if c = CHR ''~'' then ''~0'' else [c]) k)"
  by (induction k) (simp_all add: escape_def replace2_skip)

lemma unescape_tilde:
  "replace2 (CHR ''~'') (CHR ''0'') ''~''
     (concat (map (\<lambda>c. if c = CHR ''~'' then ''~0'' else [c]) k)) = k"
  by (induction k) (simp_all add: replace2_skip)

lemma unescape_escape: "unescape (escape k) = k"
  by (simp add: unescape_def unescape_slash unescape_tilde)

text \<open>
  Claim C8 says that for every pointer beginning with \<open>#\<close> the resolvers split the suffix on
  \<open>/\<close>, unescape each segment and traverse objects by key, with not-found whenever a
  segment is not a key of the object reached. Two inputs show that the code does something
  else. In \<open>##\<close> the suffix \<open>#\<close> is one segment that is no key of the empty root, but
  \<open>_resolve_ref\<close> strips every leading \<open>#\<close> and returns the root, and
  \<open>_check_json_pointer\<close> drops everything before the first \<open>/\<close> and reports nothing.
  In \<open>#/a//b\<close> the empty segment is no key of the object under \<open>a\<close>, but
  \<open>_resolve_ref\<close> skips empty segments and returns the value under \<open>b\<close>, while
  \<open>_check_json_pointer\<close> looks the empty key up and reports it.
\<close>

theorem pointer_extra_hash_and_empty_segment:
  "traverse [ODict []] (VRef 0) (split_on (CHR ''/'') ''#'') = None
   \<and> resolve_ref [ODict []] (VRef 0) ''##'' = VRef 0
   \<and> check_json_pointer [ODict []] (VStr ''##'') (VRef 0) ''#'' = []
   \<and> traverse pointer_heap pointer_root [''a'', '''', ''b''] = None
   \<and> resolve_ref pointer_heap pointer_root ''#/a//b'' = VInt 2
   \<and> check_json_pointer pointer_heap (VStr ''#/a//b'') pointer_root ''#'' \<noteq> []"
  by code_simp

text \<open>
  Claim C8 as the code has it: for a pointer \<open>#/seg1/.../segn\<close> written with one \<open>#\<close>,
  \<open>_check_json_pointer\<close> reports nothing exactly when traversing the document by the
  unescaped segments finds a value; \<open>_resolve_ref\<close> returns the value that this traversal
  finds, and \<open>None\<close> when it finds none, provided that no segment is empty; the pointer
  \<open>#\<close> is the root for both; and unescaping reads every escaped key back.
\<close>

theorem pointer_resolution:
  assumes "\<forall>seg \<in> set segs. CHR ''/'' \<notin> set seg"
  shows "(check_json_pointer h (VStr (pointer_of segs)) doc path = []
            \<longleftrightarrow> traverse h doc (map unescape segs) \<noteq> None)
       \<and> ((\<forall>seg \<in> set segs. seg \<noteq> []) \<longrightarrow>
            resolve_ref h root (pointer_of segs)
            = (case traverse h root (map unescape segs) of Some x \<Rightarrow> x | None \<Rightarrow> VNone))
       \<and> resolve_ref h root ''#'' = root
       \<and> check_json_pointer h (VStr ''#'') doc path = []
       \<and> unescape (escape k) = k"
proof -
  have sw: "starts_with ''#'' (pointer_of segs)"
    by (simp add: starts_with_def pointer_of_def)
  have one: "pointer_of segs = ''#'' \<longleftrightarrow> segs = []"
    by (cases segs) (simp_all add: pointer_of_def)
  have c: "check_json_pointer h (VStr (pointer_of segs)) doc path = []
            \<longleftrightarrow> traverse h doc (map unescape segs) \<noteq> None"
    using sw one split_on_pointer[OF assms] check_parts_traverse[of h doc segs path]
    by (cases "segs = []") (simp_all add: check_json_pointer_def)
  have r: "resolve_ref h root (pointer_of segs)
            = (case traverse h root (map unescape segs) of Some x \<Rightarrow> x | None \<Rightarrow> VNone)"
    if "\<forall>seg \<in> set segs. seg \<noteq> []"
    using sw split_on_join[OF assms] resolve_parts_traverse[OF that, of h root]
    by (simp add: resolve_ref_def lstrip_pointer)
  have r0: "resolve_ref h root ''#'' = root"
    by (simp add: resolve_ref_def starts_with_def)
  have c0: "check_json_pointer h (VStr ''#'') doc path = []"
    by (simp add: check_json_pointer_def starts_with_def)
  from c r r0 c0 unescape_escape show ?thesis by blast
qed

text \<open>The pointer \<open>#/a/b~1c\<close> into \<open>{"a": {"b/c": 1, "b": 2}}\<close> finds the value 1.\<close>

theorem pointer_resolution_witness:
  "check_json_pointer pointer_heap (VStr ''#/a/b~1c'') pointer_root ''#'' = []
   \<and> resolve_ref pointer_heap pointer_root ''#/a/b~1c'' = VInt 1
   \<and> unescape (escape ''b/c'') = ''b/c''"
proof -
  have t: "traverse pointer_heap pointer_root (map unescape [''a'', ''b~1c'']) = Some (VInt 1)"
    by code_simp
  have p: "pointer_of [''a'', ''b~1c''] = ''#/a/b~1c''"
    by code_simp
  show ?thesis
    using pointer_resolution [of "[''a'', ''b~1c'']" pointer_heap pointer_root "''#''"
        pointer_root "''b/c''"] t p
    by simp
qed

subsection \<open>Chains of \<open>$ref\<close>\<close>

lemma ref_step:
  assumes root: "dict_at (heap s) root = Some rkvs"
    and meta: "dict_get rkvs ''$schema'' \<noteq> Some (VStr EXTENDED_META)"
    and inst: "dict_at (heap s) instance = None"
    and tgt: "ref_target (heap s) root schema = Some t"
  shows "validate_instance (Suc n) env root instance schema path s
       = validate_instance n env root instance t path s"
proof -
  from tgt obtain skvs r where sk: "dict_at (heap s) schema = Some skvs"
    and rf: "dict_get skvs ''$ref'' = Some (VStr r)"
    and rs: "resolve_ref (heap s) root r = t" "t \<noteq> VNone"
    by (auto simp: ref_target_def split: option.splits val.splits if_splits)
  have ne: "schema \<noteq> VNone" using sk by (rule dict_at_not_none)
  have pre: "auto_enable root instance schema path s = Ok () s"
    using root meta inst by (rule quiet_prelude)
  have ref: "in_str (heap s) ''$ref'' schema = Some True"
    using sk rf by (simp add: dict_at_in_str dict_has_def dict_get_def)
  show ?thesis
    using ne pre ref sk rf rs
    by (simp add: validate_body_def resolve_ref_val_def dict_at_getitem_str monad_defs)
qed

lemma ref_unresolved:
  assumes root: "dict_at (heap s) root = Some rkvs"
    and meta: "dict_get rkvs ''$schema'' \<noteq> Some (VStr EXTENDED_META)"
    and inst: "dict_at (heap s) instance = None"
    and sk: "dict_at (heap s) schema = Some skvs"
    and rf: "dict_get skvs ''$ref'' = Some (VStr r)"
    and rs: "resolve_ref (heap s) root r = VNone"
  shows "validate_instance (Suc n) env root instance schema path s
       = Ok () (s\<lparr>errors := errors s @ [Diag ''Cannot resolve $ref'' [VStr r] path]\<rparr>)"
proof -
  have ne: "schema \<noteq> VNone" using sk by (rule dict_at_not_none)
  have pre: "auto_enable root instance schema path s = Ok () s"
    using root meta inst by (rule quiet_prelude)
  have ref: "in_str (heap s) ''$ref'' schema = Some True"
    using sk rf by (simp add: dict_at_in_str dict_has_def dict_get_def)
  show ?thesis
    using ne pre ref sk rf rs
    by (simp add: validate_body_def resolve_ref_val_def dict_at_getitem_str monad_defs)
qed

lemma chain_follow:
  assumes root: "dict_at (heap s) root = Some rkvs"
    and meta: "dict_get rkvs ''$schema'' \<noteq> Some (VStr EXTENDED_META)"
    and inst: "dict_at (heap s) instance = None"
  shows "follow k (heap s) root schema = Some t \<Longrightarrow>
         validate_instance (k + n) env root instance schema path s
         = validate_instance n env root instance t path s"
proof (induction k arbitrary: schema)
  case 0
  then show ?case by simp
next
  case (Suc k)
  then obtain t' where t': "ref_target (heap s) root schema = Some t'"
    and f: "follow k (heap s) root t' = Some t"
    by (auto split: option.splits)
  have "validate_instance (Suc (k + n)) env root instance schema path s
        = validate_instance (k + n) env root instance t' path s"
    using root meta inst t' by (rule ref_step)
  with Suc.IH[OF f] show ?case by simp
qed

lemma cycle_no_fuel:
  assumes root: "dict_at (heap s) root = Some rkvs"
    and meta: "dict_get rkvs ''$schema'' \<noteq> Some (VStr EXTENDED_META)"
    and inst: "dict_at (heap s) instance = None"
  shows "\<forall>k. follow k (heap s) root schema \<noteq> None \<Longrightarrow>
         validate_instance fuel env root instance schema path s = OutOfFuel"
proof (induction fuel arbitrary: schema)
  case 0
  then show ?case by simp
next
  case (Suc fuel)
  from Suc.prems have "follow (Suc 0) (heap s) root schema \<noteq> None" by blast
  then obtain t' where t': "ref_target (heap s) root schema = Some t'"
    by (auto split: option.splits)
  have "\<forall>k. follow k (heap s) root t' \<noteq> None"
  proof
    fix k
    from Suc.prems have "follow (Suc k) (heap s) root schema \<noteq> None" by blast
    with t' show "follow k (heap s) root t' \<noteq> None" by simp
  qed
  from Suc.IH[OF this] ref_step[OF root meta inst t', of fuel env path]
  show ?case by simp
qed

lemma cyclic_follow: "follow k (heap cyclic_state) (VRef 2) (VRef 0) \<noteq> None"
proof (induction k)
  case 0
  then show ?case by simp
next
  case (Suc k)
  have "ref_target (heap cyclic_state) (VRef 2) (VRef 0) = Some (VRef 0)" by code_simp
  with Suc show ?case by simp
qed

lemma cyclic_follow_root: "follow k (heap cyclic_state) (VRef 2) (VRef 2) \<noteq> None"
proof (cases k)
  case 0
  then show ?thesis by simp
next
  case (Suc j)
  have "ref_target (heap cyclic_state) (VRef 2) (VRef 2) = Some (VRef 0)" by code_simp
  with Suc cyclic_follow[of j] show ?thesis by simp
qed


text \<open>
  Claim C4 says that chains of \<open>$ref\<close> are resolved under a finite budget and that a cyclic
  chain ends with a cycle diagnostic. The code has no budget and no record of the targets
  it has visited: on the schema whose definition \<open>A\<close> refers to itself, no depth of nested
  calls is enough for \<open>validate_instance\<close> to return.
\<close>

theorem cyclic_ref_never_returns:
  "\<forall>fuel. returned (run_validate fuel env0 cyclic_schema (JInt 1)) = None"
proof
  fix fuel
  have l: "load cyclic_schema [] = (VRef 2, heap cyclic_state)" by code_simp
  have r: "dict_at (heap cyclic_state) (VRef 2)
           = Some [(''$ref'', VStr ''#/definitions/A''), (''definitions'', VRef 1)]"
    by code_simp
  have s: "\<lparr>heap = heap cyclic_state, errors = []\<rparr> = cyclic_state"
    by (simp add: cyclic_state_def)
  have "validate_instance fuel env0 (VRef 2) (VInt 1) VNone ''#'' cyclic_state = OutOfFuel"
  proof (cases fuel)
    case 0
    then show ?thesis by simp
  next
    case (Suc n)
    have "validate_instance (Suc n) env0 (VRef 2) (VInt 1) VNone ''#'' cyclic_state
        = validate_instance (Suc n) env0 (VRef 2) (VInt 1) (VRef 2) ''#'' cyclic_state"
      by (simp add: validate_body_def monad_defs)
    also have "\<dots> = OutOfFuel"
      by (rule cycle_no_fuel[OF r]) (simp_all add: dict_get_def cyclic_follow_root)
    finally show ?thesis using Suc by simp
  qed
  then show "returned (run_validate fuel env0 cyclic_schema (JInt 1)) = None"
    by (simp add: run_validate_def l s returned_def)
qed

text \<open>
  Claim C4 as the code has it, for a root that is not under the extended meta and an
  instance that is no object: a chain of \<open>k\<close> resolvable links costs \<open>k\<close> nested calls and
  continues with the schema at its end, whatever \<open>k\<close> is; a chain that never ends (a cycle)
  exhausts every depth of nested calls; and a link whose pointer does not resolve adds the
  diagnostic \<open>Cannot resolve $ref\<close> and returns.
\<close>

theorem ref_chain_unbounded:
  assumes root: "dict_at (heap s) root = Some rkvs"
    and meta: "dict_get rkvs ''$schema'' \<noteq> Some (VStr EXTENDED_META)"
    and inst: "dict_at (heap s) instance = None"
  shows "(follow k (heap s) root schema = Some t \<longrightarrow>
            validate_instance (k + n) env root instance schema path s
            = validate_instance n env root instance t path s)
       \<and> ((\<forall>j. follow j (heap s) root schema \<noteq> None) \<longrightarrow>
            (\<forall>fuel. validate_instance fuel env root instance schema path s = OutOfFuel))
       \<and> (dict_at (heap s) schema = Some skvs \<and> dict_get skvs ''$ref'' = Some (VStr r)
            \<and> resolve_ref (heap s) root r = VNone \<longrightarrow>
            validate_instance (Suc n) env root instance schema path s
            = Ok () (s\<lparr>errors := errors s @ [Diag ''Cannot resolve $ref'' [VStr r] path]\<rparr>))"
  using chain_follow[OF root meta inst, of k schema t n env path]
    cycle_no_fuel[OF root meta inst, of schema _ env path]
    ref_unresolved[OF root meta inst, of schema skvs r n env path]
  by blast

text \<open>A chain of two links, the self-referential definition, and a link to a definition
  that does not exist.\<close>

theorem ref_chain_unbounded_witness:
  "validate_instance 3 env0 (VRef 4) (VInt 1) (VRef 4) ''#'' chain_state
   = Ok () (chain_state\<lparr>errors := [Diag ''Expected string'' [VStr ''int''] ''#'']\<rparr>)
   \<and> (\<forall>fuel. validate_instance fuel env0 (VRef 2) (VInt 1) (VRef 0) ''#'' cyclic_state
               = OutOfFuel)
   \<and> validate_instance 1 env0 (VRef 4) (VInt 1) (VRef 2) ''#'' chain_state
     = Ok () (chain_state\<lparr>errors := [Diag ''Cannot resolve $ref'' [VStr ''#/definitions/D''] ''#'']\<rparr>)"
proof -
  have r1: "dict_at (heap chain_state) (VRef 4)
            = Some [(''$ref'', VStr ''#/definitions/A''), (''definitions'', VRef 3)]"
    by code_simp
  have r2: "dict_at (heap cyclic_state) (VRef 2)
            = Some [(''$ref'', VStr ''#/definitions/A''), (''definitions'', VRef 1)]"
    by code_simp
  have m: "dict_get [(''$ref'', VStr ''#/definitions/A''), (''definitions'', v)] ''$schema''
           \<noteq> Some (VStr EXTENDED_META)" for v
    by (simp add: dict_get_def)
  have f: "follow 2 (heap chain_state) (VRef 4) (VRef 4) = Some (VRef 1)"
    by code_simp
  have e: "validate_instance 1 env0 (VRef 4) (VInt 1) (VRef 1) ''#'' chain_state
           = Ok () (chain_state\<lparr>errors := [Diag ''Expected string'' [VStr ''int''] ''#'']\<rparr>)"
    by code_simp
  have c: "dict_at (heap chain_state) (VRef 2) = Some [(''$ref'', VStr ''#/definitions/D'')]"
    by code_simp
  have d: "resolve_ref (heap chain_state) (VRef 4) ''#/definitions/D'' = VNone"
    by code_simp
  have n: "errors chain_state = []"
    by (simp add: chain_state_def)
  have a1: "validate_instance 3 env0 (VRef 4) (VInt 1) (VRef 4) ''#'' chain_state
            = Ok () (chain_state\<lparr>errors := [Diag ''Expected string'' [VStr ''int''] ''#'']\<rparr>)"
    using ref_chain_unbounded [OF r1 m, where ?instance = "VInt 1" and k = 2 and n = 1
        and schema = "VRef 4" and t = "VRef 1" and env = env0 and path = "''#''"] f e
    by simp
  have a2: "\<forall>fuel. validate_instance fuel env0 (VRef 2) (VInt 1) (VRef 0) ''#'' cyclic_state
                   = OutOfFuel"
    using ref_chain_unbounded [OF r2 m, where ?instance = "VInt 1" and schema = "VRef 0"
        and env = env0 and path = "''#''"] cyclic_follow
    by simp
  have a3: "validate_instance 1 env0 (VRef 4) (VInt 1) (VRef 2) ''#'' chain_state
     = Ok () (chain_state\<lparr>errors := [Diag ''Cannot resolve $ref'' [VStr ''#/definitions/D''] ''#'']\<rparr>)"
    using ref_chain_unbounded [OF r1 m, where ?instance = "VInt 1" and n = 0
        and schema = "VRef 2" and skvs = "[(''$ref'', VStr ''#/definitions/D'')]"
        and r = "''#/definitions/D''" and env = env0 and path = "''#''"] c d n
    by (simp add: dict_get_def)
  from a1 a2 a3 show ?thesis by blast
qed

subsection \<open>Calls that leave the store alone\<close>

lemma ext_refl: "ext h h"
  by (simp add: ext_def)

lemma ext_old: "ext h0 h \<Longrightarrow> a < length h0 \<Longrightarrow> h ! a = h0 ! a"
  unfolding ext_def by (metis nth_take)

lemma ext_append: "ext h0 h \<Longrightarrow> ext h0 (h @ [ob])"
  unfolding ext_def by simp

lemma ext_update: "ext h0 h \<Longrightarrow> length h0 \<le> a \<Longrightarrow> ext h0 (h[a := ob])"
  unfolding ext_def by simp

lemma frameI:
  "(\<And>s. ext h0 (heap s) \<Longrightarrow>
      (case m s of Ok x s' \<Rightarrow> ext h0 (heap s') | Raise e s' \<Rightarrow> ext h0 (heap s') | _ \<Rightarrow> True))
   \<Longrightarrow> frame h0 m"
  unfolding frame_def by simp

lemma frame_ret: "frame h0 (ret x)"
  by (simp add: frame_def ret_def)

lemma frame_raise: "frame h0 raise"
  by (simp add: frame_def raise_def)

lemma frame_raise_re: "frame h0 raise_re"
  by (simp add: frame_def raise_re_def)

lemma frame_unsupported: "frame h0 unsupported"
  by (simp add: frame_def unsupported_def)

lemma frame_emit: "frame h0 (emit d)"
  by (simp add: frame_def emit_def)

lemma frame_get_errors: "frame h0 get_errors"
  by (simp add: frame_def get_errors_def)

lemma frame_set_errors: "frame h0 (set_errors es)"
  by (simp add: frame_def set_errors_def)

lemma frame_eval: "frame h0 (eval g)"
  by (simp add: frame_def eval_def split: option.splits)

lemma frame_peek: "frame h0 (peek g)"
  by (simp add: frame_def peek_def)

lemma frame_same_containers: "frame h0 (same_containers cs)"
  by (simp add: frame_def same_containers_def)

lemma frame_bnd:
  assumes "frame h0 m" and "\<And>x. frame h0 (f x)"
  shows "frame h0 (bnd m f)"
proof (rule frameI)
  fix s :: vstate
  assume e: "ext h0 (heap s)"
  show "case bnd m f s of Ok x s' \<Rightarrow> ext h0 (heap s') | Raise e s' \<Rightarrow> ext h0 (heap s')
        | _ \<Rightarrow> True"
  proof (cases "m s")
    case (Ok x s')
    with assms(1) e have "ext h0 (heap s')" by (auto simp: frame_def)
    with assms(2)[of x] Ok show ?thesis by (auto simp: frame_def bnd_def)
  next
    case (Raise e' s')
    with assms(1) e show ?thesis by (auto simp: frame_def bnd_def)
  qed (simp_all add: bnd_def)
qed

lemma frame_seq: "frame h0 m \<Longrightarrow> frame h0 k \<Longrightarrow> frame h0 (seq m k)"
  unfolding seq_def by (rule frame_bnd)

lemma frame_bnd_eval:
  assumes "\<And>x h. ext h0 h \<Longrightarrow> g h = Some x \<Longrightarrow> frame h0 (f x)"
  shows "frame h0 (bnd (eval g) f)"
proof (rule frameI)
  fix s :: vstate
  assume e: "ext h0 (heap s)"
  show "case bnd (eval g) f s of Ok x s' \<Rightarrow> ext h0 (heap s')
        | Raise e s' \<Rightarrow> ext h0 (heap s') | _ \<Rightarrow> True"
  proof (cases "g (heap s)")
    case None
    with e show ?thesis by (simp add: bnd_def eval_def)
  next
    case (Some x)
    with assms[OF e Some] e show ?thesis by (auto simp: frame_def bnd_def eval_def)
  qed
qed

lemma frame_bnd_peek:
  assumes "\<And>h. ext h0 h \<Longrightarrow> frame h0 (f (g h))"
  shows "frame h0 (bnd (peek g) f)"
proof (rule frameI)
  fix s :: vstate
  assume e: "ext h0 (heap s)"
  from assms[OF e] e
  show "case bnd (peek g) f s of Ok x s' \<Rightarrow> ext h0 (heap s')
        | Raise e s' \<Rightarrow> ext h0 (heap s') | _ \<Rightarrow> True"
    by (simp add: frame_def bnd_def peek_def)
qed

lemma frame_bnd_alloc:
  assumes "\<And>v. fresh h0 v \<Longrightarrow> frame h0 (f v)"
  shows "frame h0 (bnd (alloc ob) f)"
proof (rule frameI)
  fix s :: vstate
  assume e: "ext h0 (heap s)"
  have fr: "fresh h0 (VRef (length (heap s)))"
    using e by (simp add: fresh_def ext_def)
  have "ext h0 (heap (s\<lparr>heap := heap s @ [ob]\<rparr>))"
    using e by (simp add: ext_append)
  with assms[OF fr]
  show "case bnd (alloc ob) f s of Ok x s' \<Rightarrow> ext h0 (heap s')
        | Raise e s' \<Rightarrow> ext h0 (heap s') | _ \<Rightarrow> True"
    by (auto simp: frame_def bnd_def alloc_def)
qed

lemma frame_alloc: "frame h0 (alloc ob)"
  by (simp add: frame_def alloc_def ext_append)

lemma frame_store_dict:
  assumes "fresh h0 v"
  shows "frame h0 (store_dict v kvs)"
proof (cases v)
  case (VRef a)
  with assms show ?thesis
    by (simp add: frame_def store_dict_def fresh_def ext_update)
qed (insert assms, simp_all add: fresh_def)

lemma frame_if: "(c \<Longrightarrow> frame h0 a) \<Longrightarrow> (\<not> c \<Longrightarrow> frame h0 b) \<Longrightarrow> frame h0 (if c then a else b)"
  by simp

lemma frame_case_option:
  "(v = None \<Longrightarrow> frame h0 a) \<Longrightarrow> (\<And>x. v = Some x \<Longrightarrow> frame h0 (f x))
   \<Longrightarrow> frame h0 (case v of None \<Rightarrow> a | Some x \<Rightarrow> f x)"
  by (cases v) simp_all

lemma frame_case_val:
  "frame h0 a \<Longrightarrow> (\<And>b. frame h0 (f1 b)) \<Longrightarrow> (\<And>i. frame h0 (f2 i)) \<Longrightarrow> (\<And>x. frame h0 (f3 x))
   \<Longrightarrow> (\<And>t. frame h0 (f4 t)) \<Longrightarrow> (\<And>r. frame h0 (f5 r))
   \<Longrightarrow> frame h0 (case_val a f1 f2 f3 f4 f5 v)"
  by (cases v) simp_all

lemma frame_case_bool:
  "frame h0 a \<Longrightarrow> frame h0 b \<Longrightarrow> frame h0 (case_bool a b v)"
  by (cases v) simp_all

lemma frame_for_each:
  "(\<And>x. x \<in> set xs \<Longrightarrow> frame h0 (body x)) \<Longrightarrow> frame h0 (for_each xs body)"
  by (induction xs) (simp_all add: frame_ret frame_bnd)

lemma frame_for_guarded:
  assumes "\<And>x. x \<in> set xs \<Longrightarrow> frame h0 (body x)"
  shows "frame h0 (for_guarded cs xs body)"
proof (rule frameI)
  fix s :: vstate
  assume e: "ext h0 (heap s)"
  have "frame h0 (for_each xs (\<lambda>x. seq (body x) (same_containers (snapshot cs s))))"
    by (intro frame_for_each frame_seq frame_same_containers assms)
  with e show "case for_guarded cs xs body s of Ok x s' \<Rightarrow> ext h0 (heap s')
                | Raise e s' \<Rightarrow> ext h0 (heap s') | _ \<Rightarrow> True"
    by (simp add: frame_def for_guarded_def)
qed

lemma frame_catch_re: "frame h0 m \<Longrightarrow> frame h0 k \<Longrightarrow> frame h0 (catch_re m k)"
proof (rule frameI)
  fix s :: vstate
  assume e: "ext h0 (heap s)" and m: "frame h0 m" and k: "frame h0 k"
  show "case catch_re m k s of Ok x s' \<Rightarrow> ext h0 (heap s')
        | Raise e s' \<Rightarrow> ext h0 (heap s') | _ \<Rightarrow> True"
  proof (cases "m s")
    case (Ok x s')
    with m e show ?thesis by (auto simp: frame_def catch_re_def)
  next
    case (Raise ex s')
    with m e have "ext h0 (heap s')" by (auto simp: frame_def)
    with k Raise show ?thesis by (cases ex) (auto simp: frame_def catch_re_def)
  qed (simp_all add: catch_re_def)
qed

lemmas frame_intros =
  frame_bnd_eval frame_bnd_peek frame_bnd_alloc frame_bnd frame_seq
  frame_ret frame_raise frame_raise_re frame_unsupported frame_emit frame_get_errors
  frame_set_errors frame_eval frame_peek frame_alloc frame_same_containers
  frame_if frame_case_option frame_case_val frame_case_bool
  frame_for_each frame_for_guarded frame_catch_re


lemma inside_dict:
  assumes "uses_free h0 I" "ext h0 h" "inside I c" "dict_at h c = Some kvs"
  shows "\<not> dict_has kvs ''$uses'' \<and> (\<forall>kv \<in> set kvs. inside I (snd kv))"
proof -
  from assms(4) obtain a where c: "c = VRef a" and a: "a < length h" and o: "h ! a = ODict kvs"
    by (auto simp: dict_at_def obj_at_def split: val.splits if_splits option.splits obj.splits)
  from assms(3) c have i: "a \<in> I" by (simp add: inside_def)
  with assms(1) have l: "a < length h0" by (auto simp: uses_free_def)
  with assms(2) o have "h0 ! a = ODict kvs" by (simp add: ext_old)
  with assms(1) i show ?thesis by (fastforce simp: uses_free_def)
qed

lemma inside_list:
  assumes "uses_free h0 I" "ext h0 h" "inside I c" "list_at h c = Some xs"
  shows "\<forall>v \<in> set xs. inside I v"
proof -
  from assms(4) obtain a where c: "c = VRef a" and a: "a < length h" and o: "h ! a = OList xs"
    by (auto simp: list_at_def obj_at_def split: val.splits if_splits option.splits obj.splits)
  from assms(3) c have i: "a \<in> I" by (simp add: inside_def)
  with assms(1) have l: "a < length h0" by (auto simp: uses_free_def)
  with assms(2) o have "h0 ! a = OList xs" by (simp add: ext_old)
  with assms(1) i show ?thesis by (fastforce simp: uses_free_def)
qed

lemma inside_getitem:
  assumes "uses_free h0 I" "ext h0 h" "inside I c" "getitem_str h c k = Some v"
  shows "inside I v"
proof -
  from assms(4) obtain kvs where d: "dict_at h c = Some kvs" and g: "dict_get kvs k = Some v"
    by (auto simp: getitem_str_def split: option.splits)
  from g have "(k, v) \<in> set kvs" by (simp add: dict_get_def map_of_SomeD)
  with inside_dict[OF assms(1-3) d] show ?thesis by fastforce
qed

lemma inside_enumerate:
  "\<forall>v \<in> set xs. inside I v \<Longrightarrow> x \<in> set (enumerate_from0 xs) \<Longrightarrow> inside I (snd x)"
  by (cases x) (auto simp: enumerate_from0_def dest: set_zip_rightD)

lemma inside_scalar [simp]:
  "inside I (VStr t)" "inside I VNone" "inside I (VBool b)" "inside I (VInt i)"
  "inside I (VFloat f)"
  by (simp_all add: inside_def)

lemma frame_emit_got: "frame h0 (emit_got msg instance path)"
  unfolding emit_got_def by (intro frame_intros)

lemma frame_check_int_range: "frame h0 (check_int_range name lo hi instance path)"
  unfolding check_int_range_def by (intro frame_intros frame_emit_got)

lemma frame_check_int_string: "frame h0 (check_int_string env name lo hi instance path)"
  unfolding check_int_string_def by (intro frame_intros frame_emit_got)

lemma frame_check_regex: "frame h0 (check_regex env name msg instance path)"
  unfolding check_regex_def by (intro frame_intros)

lemma frame_check_primitive: "frame h0 (check_primitive env schema_type instance path)"
  unfolding check_primitive_def
  by (intro frame_intros frame_emit_got frame_check_int_range frame_check_int_string
      frame_check_regex)

lemma frame_dependent_required: "frame h0 (dependent_required env schema instance path)"
  unfolding dependent_required_def by (intro frame_intros)


lemma frame_snapshot:
  assumes "\<And>snap. frame h0 (f snap)"
  shows "frame h0 (\<lambda>s. f (snapshot cs s) s)"
  using assms by (simp add: frame_def)

lemma frame_bnd_post:
  assumes m: "\<And>s v s'. ext h0 (heap s) \<Longrightarrow> m s = Ok v s' \<Longrightarrow> ext h0 (heap s') \<and> Q v"
    and r: "\<And>s e s'. ext h0 (heap s) \<Longrightarrow> m s = Raise e s' \<Longrightarrow> ext h0 (heap s')"
    and f: "\<And>v. Q v \<Longrightarrow> frame h0 (f v)"
  shows "frame h0 (bnd m f)"
proof (rule frameI)
  fix s :: vstate
  assume e: "ext h0 (heap s)"
  show "case bnd m f s of Ok x s' \<Rightarrow> ext h0 (heap s') | Raise e s' \<Rightarrow> ext h0 (heap s')
        | _ \<Rightarrow> True"
  proof (cases "m s")
    case (Ok v s')
    from m[OF e Ok] f[of v] Ok show ?thesis by (auto simp: frame_def bnd_def)
  next
    case (Raise ex s')
    from r[OF e Raise] Raise show ?thesis by (simp add: bnd_def)
  qed (simp_all add: bnd_def)
qed

subsection \<open>Conditional composition\<close>

lemma frame_allof_block:
  assumes rec: "\<And>inst sch p. inside I inst \<Longrightarrow> frame h0 (rec inst sch p)"
    and inst: "inside I instance"
  shows "frame h0 (allof_block rec schema instance path)"
  unfolding allof_block_def by (intro frame_intros rec inst)

lemma frame_anyof_loop:
  assumes rec: "\<And>inst sch p. inside I inst \<Longrightarrow> frame h0 (rec inst sch p)"
    and inst: "inside I instance"
  shows "frame h0 (anyof_loop rec instance path snap xs acc)"
proof (induction xs arbitrary: acc)
  case Nil
  show ?case by (simp add: frame_ret)
next
  case (Cons x xs)
  show ?case
    unfolding anyof_loop.simps by (intro frame_intros rec inst Cons.IH)
qed

lemma frame_anyof_block:
  assumes rec: "\<And>inst sch p. inside I inst \<Longrightarrow> frame h0 (rec inst sch p)"
    and inst: "inside I instance"
  shows "frame h0 (anyof_block rec schema instance path)"
proof -
  have loop: "frame h0 (\<lambda>s. anyof_loop rec instance path (snapshot [subs] s) xs [] s)"
    for subs xs
    by (rule frame_snapshot[where f = "\<lambda>snap. anyof_loop rec instance path snap xs []"])
       (rule frame_anyof_loop[OF rec inst])
  show ?thesis
    unfolding anyof_block_def by (intro frame_intros loop)
qed

lemma frame_oneof_loop:
  assumes rec: "\<And>inst sch p. inside I inst \<Longrightarrow> frame h0 (rec inst sch p)"
    and inst: "inside I instance"
  shows "frame h0 (oneof_loop rec instance path snap xs n acc)"
proof (induction xs arbitrary: n acc)
  case Nil
  show ?case by (simp add: frame_ret)
next
  case (Cons x xs)
  show ?case
    unfolding oneof_loop.simps by (intro frame_intros rec inst Cons.IH)
qed

lemma frame_oneof_block:
  assumes rec: "\<And>inst sch p. inside I inst \<Longrightarrow> frame h0 (rec inst sch p)"
    and inst: "inside I instance"
  shows "frame h0 (oneof_block rec schema instance path)"
proof -
  have loop: "frame h0 (\<lambda>s. oneof_loop rec instance path (snapshot [subs] s) xs 0 [] s)"
    for subs xs
    by (rule frame_snapshot[where f = "\<lambda>snap. oneof_loop rec instance path snap xs 0 []"])
       (rule frame_oneof_loop[OF rec inst])
  show ?thesis
    unfolding oneof_block_def by (intro frame_intros loop)
qed

lemma frame_not_block:
  assumes rec: "\<And>inst sch p. inside I inst \<Longrightarrow> frame h0 (rec inst sch p)"
    and inst: "inside I instance"
  shows "frame h0 (not_block rec schema instance path)"
  unfolding not_block_def by (intro frame_intros rec inst)

lemma frame_if_block:
  assumes rec: "\<And>inst sch p. inside I inst \<Longrightarrow> frame h0 (rec inst sch p)"
    and inst: "inside I instance"
  shows "frame h0 (if_block rec schema instance path)"
  unfolding if_block_def by (intro frame_intros rec inst)

lemma frame_keyword_block: "frame h0 block \<Longrightarrow> frame h0 (keyword_block kw schema block)"
  unfolding keyword_block_def by (intro frame_intros)

lemma frame_validate_conditionals:
  assumes rec: "\<And>inst sch p. inside I inst \<Longrightarrow> frame h0 (rec inst sch p)"
    and inst: "inside I instance"
  shows "frame h0 (validate_conditionals rec schema instance path)"
  unfolding validate_conditionals_def
  by (intro frame_intros frame_keyword_block frame_allof_block[OF rec inst]
      frame_anyof_block[OF rec inst] frame_oneof_block[OF rec inst]
      frame_not_block[OF rec inst] frame_if_block[OF rec inst])

subsection \<open>Type-based validation\<close>

lemma frame_validate_items:
  assumes rec: "\<And>inst sch p. inside I inst \<Longrightarrow> frame h0 (rec inst sch p)"
    and I: "uses_free h0 I" and inst: "inside I instance"
  shows "frame h0 (validate_items env rec schema instance path)"
  unfolding validate_items_def
  apply (intro frame_intros rec)
  apply (auto dest!: inside_list[OF I _ inst] intro: inside_enumerate)
  done

lemma frame_has_loop:
  assumes rec: "\<And>inst sch p. inside I inst \<Longrightarrow> frame h0 (rec inst sch p)"
  shows "\<forall>kv \<in> set kvs. inside I (snd kv) \<Longrightarrow>
         frame h0 (has_loop rec has_schema path snap kvs)"
proof (induction kvs)
  case Nil
  show ?case by (simp add: frame_ret)
next
  case (Cons kv kvs)
  then have k: "inside I (snd kv)" and r: "frame h0 (has_loop rec has_schema path snap kvs)"
    by simp_all
  show ?case
    unfolding has_loop.simps by (intro frame_intros rec k r)
qed

lemma frame_additional_properties:
  assumes rec: "\<And>inst sch p. inside I inst \<Longrightarrow> frame h0 (rec inst sch p)"
    and I: "uses_free h0 I" and inst: "inside I instance"
  shows "frame h0 (additional_properties env rec schema props instance path)"
  unfolding additional_properties_def
  apply (intro frame_intros rec)
  apply (erule (1) inside_getitem[OF I _ inst])
  done

lemma frame_has_keyword:
  assumes rec: "\<And>inst sch p. inside I inst \<Longrightarrow> frame h0 (rec inst sch p)"
    and I: "uses_free h0 I" and inst: "inside I instance"
  shows "frame h0 (has_keyword rec schema instance path)"
proof -
  have loop: "frame h0 (\<lambda>s. has_loop rec has_schema path (snapshot [instance] s) ikvs s)"
    if "\<forall>kv \<in> set ikvs. inside I (snd kv)" for has_schema ikvs
    by (rule frame_snapshot[where f = "\<lambda>snap. has_loop rec has_schema path snap ikvs"])
       (rule frame_has_loop[OF rec that])
  show ?thesis
    unfolding has_keyword_def
    apply (intro frame_intros loop)
    apply (drule (1) inside_dict[OF I _ inst])
    apply simp
    done
qed

lemma frame_validate_object:
  assumes rec: "\<And>inst sch p. inside I inst \<Longrightarrow> frame h0 (rec inst sch p)"
    and I: "uses_free h0 I" and inst: "inside I instance"
  shows "frame h0 (validate_object env rec schema instance path)"
  unfolding validate_object_def
  apply (intro frame_intros rec frame_additional_properties[OF rec I inst]
      frame_has_keyword[OF rec I inst] frame_dependent_required)
  apply (erule (1) inside_getitem[OF I _ inst])
  apply assumption+
  done

lemma frame_has_duplicates: "frame h0 (has_duplicates env xs)"
  unfolding has_duplicates_def by (intro frame_intros)

lemma frame_validate_set:
  assumes rec: "\<And>inst sch p. inside I inst \<Longrightarrow> frame h0 (rec inst sch p)"
    and I: "uses_free h0 I" and inst: "inside I instance"
  shows "frame h0 (validate_set env rec schema instance path)"
  unfolding validate_set_def
  by (intro frame_intros frame_has_duplicates frame_validate_items[OF rec I inst])

lemma frame_validate_map:
  assumes rec: "\<And>inst sch p. inside I inst \<Longrightarrow> frame h0 (rec inst sch p)"
    and I: "uses_free h0 I" and inst: "inside I instance"
  shows "frame h0 (validate_map env rec schema instance path)"
  unfolding validate_map_def
  apply (intro frame_intros rec)
  apply (drule (1) inside_dict[OF I _ inst])
  apply simp
  done

lemma frame_validate_tuple:
  assumes rec: "\<And>inst sch p. inside I inst \<Longrightarrow> frame h0 (rec inst sch p)"
    and I: "uses_free h0 I" and inst: "inside I instance"
  shows "frame h0 (validate_tuple rec schema instance path)"
  unfolding validate_tuple_def
  apply (intro frame_intros rec)
  apply (auto dest!: inside_list[OF I _ inst] dest: set_zip_rightD)
  done

lemma frame_check_type:
  assumes rec: "\<And>inst sch p. inside I inst \<Longrightarrow> frame h0 (rec inst sch p)"
    and I: "uses_free h0 I" and inst: "inside I instance"
  shows "frame h0 (check_type env rec schema schema_type instance path)"
  unfolding check_type_def
  by (intro frame_intros frame_check_primitive frame_emit_got
      frame_validate_object[OF rec I inst] frame_validate_items[OF rec I inst]
      frame_validate_set[OF rec I inst] frame_validate_map[OF rec I inst]
      frame_validate_tuple[OF rec I inst])

subsection \<open>Validation add-in constraints\<close>

lemma frame_try_compare: "frame h0 (try_compare env op a b violated failed)"
  unfolding try_compare_def by (intro frame_intros)

lemma frame_numeric_constraints: "frame h0 (numeric_constraints env skvs instance path)"
  unfolding numeric_constraints_def by (intro frame_intros frame_try_compare)

lemma frame_length_constraint: "frame h0 (length_constraint env skvs kw op len violated)"
  unfolding length_constraint_def by (intro frame_intros)

lemma frame_string_constraints: "frame h0 (string_constraints env skvs instance path)"
  unfolding string_constraints_def by (intro frame_intros frame_length_constraint)

lemma frame_array_constraints: "frame h0 (array_constraints env skvs instance path)"
  unfolding array_constraints_def
  by (intro frame_intros frame_length_constraint frame_has_duplicates)

lemma frame_pattern_properties:
  assumes rec: "\<And>inst sch p. inside I inst \<Longrightarrow> frame h0 (rec inst sch p)"
    and I: "uses_free h0 I" and inst: "inside I instance"
  shows "frame h0 (pattern_properties env rec schema kw instance path)"
  unfolding pattern_properties_def
  apply (intro frame_intros rec)
  apply (drule (1) inside_dict[OF I _ inst])
  apply simp
  done

lemma frame_names_schema:
  assumes rec: "\<And>inst sch p. inside I inst \<Longrightarrow> frame h0 (rec inst sch p)"
  shows "frame h0 (names_schema rec schema kw label instance path)"
  unfolding names_schema_def
  apply (intro frame_intros rec)
  apply simp
  done

lemma frame_object_constraints:
  assumes rec: "\<And>inst sch p. inside I inst \<Longrightarrow> frame h0 (rec inst sch p)"
    and I: "uses_free h0 I" and inst: "inside I instance"
  shows "frame h0 (object_constraints env rec schema instance path)"
  unfolding object_constraints_def
  by (intro frame_intros frame_length_constraint frame_pattern_properties[OF rec I inst]
      frame_names_schema[OF rec] frame_dependent_required)

lemma frame_map_constraints:
  assumes rec: "\<And>inst sch p. inside I inst \<Longrightarrow> frame h0 (rec inst sch p)"
    and I: "uses_free h0 I" and inst: "inside I instance"
  shows "frame h0 (map_constraints env rec schema instance path)"
  unfolding map_constraints_def
  by (intro frame_intros frame_pattern_properties[OF rec I inst] frame_names_schema[OF rec])

lemma frame_schema_type_is: "frame h0 (schema_type_is schema P)"
  unfolding schema_type_is_def by (rule frame_eval)

lemma frame_validate_validation_addins:
  assumes rec: "\<And>inst sch p. inside I inst \<Longrightarrow> frame h0 (rec inst sch p)"
    and I: "uses_free h0 I" and inst: "inside I instance"
  shows "frame h0 (validate_validation_addins env rec schema instance path)"
  unfolding validate_validation_addins_def
  by (intro frame_intros frame_schema_type_is frame_numeric_constraints
      frame_string_constraints frame_array_constraints
      frame_object_constraints[OF rec I inst] frame_map_constraints[OF rec I inst])

subsection \<open>The body of a call\<close>

lemma frame_root_uses_has: "frame h0 (root_uses_has root name)"
  unfolding root_uses_has_def by (intro frame_intros)

lemma frame_resolve_ref_val: "frame h0 (resolve_ref_val root ref)"
  unfolding resolve_ref_val_def by (intro frame_intros)

lemma frame_update_from: "fresh h0 target \<Longrightarrow> frame h0 (update_from target other)"
  unfolding update_from_def by (intro frame_intros frame_store_dict)

lemma dict_copy_fresh:
  assumes "ext h0 (heap s)" and "dict_copy x s = Ok v s'"
  shows "ext h0 (heap s') \<and> fresh h0 v"
  using assms
  by (auto simp: dict_copy_def monad_defs fresh_def ext_def
      split: option.splits if_splits)

lemma dict_copy_raise:
  assumes "ext h0 (heap s)" and "dict_copy x s = Raise e s'"
  shows "ext h0 (heap s')"
  using assms
  by (auto simp: dict_copy_def monad_defs split: option.splits if_splits)

lemma frame_bnd_dict_copy:
  assumes "\<And>v. fresh h0 v \<Longrightarrow> frame h0 (f v)"
  shows "frame h0 (bnd (dict_copy x) f)"
  by (rule frame_bnd_post[where Q = "fresh h0"])
     (auto dest: dict_copy_fresh dict_copy_raise intro: assms)

lemma frame_resolve_type_ref: "frame h0 (resolve_type_ref root schema tref path)"
  unfolding resolve_type_ref_def
  by (intro frame_bnd_dict_copy frame_intros frame_resolve_ref_val frame_store_dict
      frame_update_from)

lemma frame_union_loop:
  assumes rec: "\<And>inst sch p. inside I inst \<Longrightarrow> frame h0 (rec inst sch p)"
    and inst: "inside I instance"
  shows "frame h0 (union_loop rec instance path snap ts acc)"
proof (induction ts arbitrary: acc)
  case Nil
  show ?case by (simp add: frame_ret)
next
  case (Cons t ts)
  show ?case
    unfolding union_loop.simps by (intro frame_intros rec inst Cons.IH)
qed

lemma frame_union_block:
  assumes rec: "\<And>inst sch p. inside I inst \<Longrightarrow> frame h0 (rec inst sch p)"
    and inst: "inside I instance"
  shows "frame h0 (union_block rec instance schema_type ts path)"
proof -
  have loop: "frame h0 (\<lambda>s. union_loop rec instance path (snapshot [schema_type] s) ts [] s)"
    by (rule frame_snapshot[where f = "\<lambda>snap. union_loop rec instance path snap ts []"])
       (rule frame_union_loop[OF rec inst])
  show ?thesis
    unfolding union_block_def by (intro frame_intros loop)
qed

lemma frame_apply_extends: "frame h0 (apply_extends env root schema path)"
  unfolding apply_extends_def by (intro frame_intros frame_resolve_ref_val)

lemma frame_const_enum: "frame h0 (const_enum env schema instance path)"
  unfolding const_enum_def by (intro frame_intros)

lemma frame_after_type_check:
  assumes rec: "\<And>inst sch p. inside I inst \<Longrightarrow> frame h0 (rec inst sch p)"
    and I: "uses_free h0 I" and inst: "inside I instance"
  shows "frame h0 (after_type_check env root rec schema instance path)"
  unfolding after_type_check_def
  by (intro frame_intros frame_root_uses_has frame_const_enum
      frame_validate_validation_addins[OF rec I inst])

lemma no_uses_inside:
  assumes "uses_free h0 I" "inside I instance" "ext h0 h"
  shows "(case dict_at h instance of None \<Rightarrow> None | Some ikvs \<Rightarrow> dict_get ikvs ''$uses'') = None"
proof (cases "dict_at h instance")
  case None
  then show ?thesis by simp
next
  case (Some ikvs)
  from inside_dict[OF assms(1) assms(3) assms(2) Some] Some
  show ?thesis by (simp add: dict_has_def dict_get_def)
qed

lemma frame_finish_typed:
  assumes rec: "\<And>inst sch p. inside I inst \<Longrightarrow> frame h0 (rec inst sch p)"
    and I: "uses_free h0 I" and inst: "inside I instance"
  shows "frame h0 (finish_typed env root rec instance schema schema_type path)"
  unfolding finish_typed_def uses_of_instance_def
  apply (rule frame_bnd_peek)
  apply (simp add: no_uses_inside[OF I inst])
  apply (intro frame_intros frame_check_type[OF rec I inst] frame_after_type_check[OF rec I inst])
  apply assumption+
  done

lemma frame_string_typed:
  assumes rec: "\<And>inst sch p. inside I inst \<Longrightarrow> frame h0 (rec inst sch p)"
    and I: "uses_free h0 I" and inst: "inside I instance"
  shows "frame h0 (string_typed env root rec instance schema schema_type path)"
  unfolding string_typed_def
  by (intro frame_intros frame_apply_extends frame_finish_typed[OF rec I inst])

lemma frame_validate_typed:
  assumes rec: "\<And>inst sch p. inside I inst \<Longrightarrow> frame h0 (rec inst sch p)"
    and I: "uses_free h0 I" and inst: "inside I instance"
  shows "frame h0 (validate_typed env root rec instance schema hasConditionals path)"
  unfolding validate_typed_def
  by (intro frame_intros frame_resolve_type_ref frame_union_block[OF rec inst]
      frame_string_typed[OF rec I inst])

lemma ext_dict_at: "ext h0 h \<Longrightarrow> dict_at h0 c = Some kvs \<Longrightarrow> dict_at h c = Some kvs"
  by (auto simp: dict_at_def obj_at_def ext_old ext_def
      split: val.splits if_splits option.splits obj.splits)

lemma quiet_auto_enable:
  assumes "dict_at (heap s) root = Some rkvs"
    and "dict_get rkvs ''$schema'' \<noteq> Some (VStr EXTENDED_META)"
    and "(case dict_at (heap s) instance of None \<Rightarrow> None
          | Some ikvs \<Rightarrow> dict_get ikvs ''$uses'') = None"
  shows "auto_enable root instance schema path s = Ok () s"
  using assms by (simp add: auto_enable_def root_meta_is_def uses_of_instance_def monad_defs)

lemma frame_auto_enable:
  assumes root: "dict_at h0 root = Some rkvs"
    and meta: "dict_get rkvs ''$schema'' \<noteq> Some (VStr EXTENDED_META)"
    and I: "uses_free h0 I" and inst: "inside I instance"
  shows "frame h0 (auto_enable root instance schema path)"
proof (rule frameI)
  fix s :: vstate
  assume e: "ext h0 (heap s)"
  have "auto_enable root instance schema path s = Ok () s"
    using ext_dict_at[OF e root] meta no_uses_inside[OF I inst e] by (rule quiet_auto_enable)
  with e show "case auto_enable root instance schema path s of Ok x s' \<Rightarrow> ext h0 (heap s')
        | Raise e s' \<Rightarrow> ext h0 (heap s') | _ \<Rightarrow> True"
    by simp
qed

lemma frame_validate_body:
  assumes rec: "\<And>inst sch p. inside I inst \<Longrightarrow> frame h0 (rec inst sch p)"
    and root: "dict_at h0 root = Some rkvs"
    and meta: "dict_get rkvs ''$schema'' \<noteq> Some (VStr EXTENDED_META)"
    and I: "uses_free h0 I" and inst: "inside I instance"
  shows "frame h0 (validate_body env root rec instance schema0 path)"
  unfolding validate_body_def
  by (intro frame_intros frame_auto_enable[OF root meta I inst] frame_resolve_ref_val
      frame_root_uses_has frame_validate_conditionals[OF rec inst]
      frame_validate_typed[OF rec I inst] rec inst)

lemma frame_validate_instance:
  assumes root: "dict_at h0 root = Some rkvs"
    and meta: "dict_get rkvs ''$schema'' \<noteq> Some (VStr EXTENDED_META)"
    and I: "uses_free h0 I"
  shows "inside I instance \<Longrightarrow> frame h0 (validate_instance n env root instance schema path)"
proof (induction n arbitrary: "instance" schema path)
  case 0
  show ?case by (simp add: frame_def)
next
  case (Suc n)
  show ?case
    unfolding validate_instance.simps
    by (rule frame_validate_body[OF Suc.IH root meta I Suc.prems])
qed


text \<open>
  When the root document is not under the extended meta and no object of the instance
  carries \<open>$uses\<close>, a call of \<open>validate_instance\<close> that returns or raises leaves every object
  that was in the store as it was, the root document among them; \<open>$extends\<close>, type
  references and unions only allocate new objects.
\<close>

lemma store_kept_without_uses:
  assumes root: "dict_at (heap s) root = Some rkvs"
    and meta: "dict_get rkvs ''$schema'' \<noteq> Some (VStr EXTENDED_META)"
    and I: "uses_free (heap s) I"
    and inst: "inside I instance"
    and r: "validate_instance n env root instance schema path s = Ok () s'
            \<or> validate_instance n env root instance schema path s = Raise e s'"
  shows "ext (heap s) (heap s') \<and> dict_at (heap s') root = Some rkvs"
proof -
  have "frame (heap s) (validate_instance n env root instance schema path)"
    using root meta I inst by (rule frame_validate_instance)
  with r have "ext (heap s) (heap s')"
    by (auto simp: frame_def ext_refl dest!: spec[of _ s])
  with root show ?thesis by (simp add: ext_dict_at)
qed

text \<open>The union example: the call allocates the schema \<open>{"type": "number"}\<close> for the trial
  and leaves the six objects of the two documents alone.\<close>

lemma store_kept_union_example:
  "ext (heap union_state)
     (heap (final_state (validate_instance 3 env0 (VRef 4) (VRef 5) (VRef 4) ''#'' union_state)))
   \<and> length (heap (final_state
        (validate_instance 3 env0 (VRef 4) (VRef 5) (VRef 4) ''#'' union_state))) = 7
   \<and> length (heap union_state) = 6"
proof -
  let ?r = "validate_instance 3 env0 (VRef 4) (VRef 5) (VRef 4) ''#'' union_state"
  have h: "heap union_state
           = [ODict [(''type'', VStr ''string'')], OList [VStr ''number''],
              ODict [(''type'', VRef 1)], ODict [(''a'', VRef 0), (''b'', VRef 2)],
              ODict [(''type'', VStr ''object''), (''properties'', VRef 3)],
              ODict [(''a'', VInt 1), (''b'', VInt 2)]]"
    by code_simp
  have root: "dict_at (heap union_state) (VRef 4)
              = Some [(''type'', VStr ''object''), (''properties'', VRef 3)]"
    by code_simp
  have meta: "dict_get [(''type'', VStr ''object''), (''properties'', VRef 3)] ''$schema''
              \<noteq> Some (VStr EXTENDED_META)"
    by (simp add: dict_get_def)
  have I: "uses_free (heap union_state) {5}"
    by (simp add: uses_free_def h dict_has_def inside_def)
  have inst: "inside {5} (VRef 5)"
    by (simp add: inside_def)
  have run: "?r = Ok () (final_state ?r)"
    by code_simp
  have len: "length (heap (final_state ?r)) = 7"
    by code_simp
  from store_kept_without_uses [OF root meta I inst, where n = 3 and env = env0
      and schema = "VRef 4" and path = "''#''" and s' = "final_state ?r"] run len h
  show ?thesis by simp
qed

text \<open>Under the extended meta every call writes \<open>$uses\<close> into the schema it is given: the
  root of \<open>{"$schema": extended, "type": "string"}\<close> has a third key after validating
  \<open>"x"\<close>.\<close>

lemma extended_meta_writes_uses:
  "load extended_schema []
   = (VRef 0, [ODict [(''$schema'', VStr EXTENDED_META), (''type'', VStr ''string'')]])
   \<and> dict_at (final_heap (run_validate 2 env0 extended_schema (JStr ''x''))) (VRef 0)
     = Some [(''$schema'', VStr EXTENDED_META), (''type'', VStr ''string''), (''$uses'', VRef 1)]"
  by code_simp

text \<open>
  Claim C5 says that \<open>validate_instance\<close> never mutates the root schema document, because
  \<open>$uses\<close> add-in merging builds a merged schema value for the call. In \<open>_apply_uses\<close> the
  copy \<open>merged = dict(schema)\<close> is one level deep, so \<open>merged["properties"]\<close> is the
  \<open>properties\<close> dictionary of the source schema and \<open>.update(addin_props)\<close> writes into it.
  In the add-in conflict example the root's \<open>properties\<close> (address 2) holds \<open>extra\<close> as the
  string schema at address 1. The instance \<open>{"main": "hello", "extra": "text"}\<close>, which has
  no \<open>$uses\<close>, is accepted. After one call with the instance that names the add-in, the
  root's \<open>properties\<close> holds \<open>extra\<close> as the add-in's number schema at address 3, and a new
  validator on the same root reports \<open>Expected number\<close> for the same plain instance.
\<close>

theorem addin_merge_changes_root_schema:
  "getitem_str (heap conflict_state) (VRef 7) ''properties'' = Some (VRef 2)
   \<and> dict_at (heap conflict_state) (VRef 2) = Some [(''main'', VRef 0), (''extra'', VRef 1)]
   \<and> (case load plain_instance (heap conflict_state) of
         (i, h) \<Rightarrow> returned (validate_instance 3 env0 (VRef 7) i VNone ''#''
                              \<lparr>heap = h, errors = []\<rparr>)) = Some []
   \<and> dict_at (heap (final_state
                      (validate_instance 3 env0 (VRef 7) (VRef 9) VNone ''#'' conflict_state)))
          (VRef 2) = Some [(''main'', VRef 0), (''extra'', VRef 3)]
   \<and> (case load plain_instance
               (heap (final_state
                        (validate_instance 3 env0 (VRef 7) (VRef 9) VNone ''#'' conflict_state))) of
         (i, h) \<Rightarrow> returned (validate_instance 3 env0 (VRef 7) i VNone ''#''
                              \<lparr>heap = h, errors = []\<rparr>))
     = Some [Diag ''Expected number'' [VStr ''str''] ''#/extra'']"
  by code_simp

subsection \<open>Add-ins\<close>

lemma dict_set_get: "map_of (dict_set kvs k v) = (map_of kvs)(k \<mapsto> v)"
  by (induction kvs) (auto simp: fun_eq_iff)

lemma dict_update_map: "map_of (dict_update kvs other) = map_of kvs ++ map_of (rev other)"
  unfolding dict_update_def
proof (induction other arbitrary: kvs)
  case Nil
  show ?case by simp
next
  case (Cons kv other)
  show ?case
    by (simp add: Cons.IH dict_set_get map_add_def fun_eq_iff split: option.splits)
qed

lemma map_of_rev_distinct: "distinct (map fst xs) \<Longrightarrow> map_of (rev xs) = map_of xs"
proof (induction xs)
  case Nil
  show ?case by simp
next
  case (Cons kv xs)
  then have "map_of xs (fst kv) = None"
    by (simp add: map_of_eq_None_iff)
  with Cons show ?case
    by (auto simp: fun_eq_iff map_add_def split: option.splits)
qed

lemma dict_update_get:
  assumes "distinct (map fst other)"
  shows "dict_get (dict_update kvs other) k
         = (case dict_get other k of Some v \<Rightarrow> Some v | None \<Rightarrow> dict_get kvs k)"
  using assms
  by (simp add: dict_get_def dict_update_map map_add_def map_of_rev_distinct split: option.splits)

lemma dict_at_obj:
  "dict_at h c = Some kvs \<Longrightarrow> \<exists>a. c = VRef a \<and> a < length h \<and> h ! a = ODict kvs"
  by (auto simp: dict_at_def obj_at_def split: val.splits if_splits option.splits obj.splits)

lemma dict_at_append: "dict_at h c = Some kvs \<Longrightarrow> dict_at (h @ [ob]) c = Some kvs"
  by (auto simp: dict_at_def obj_at_def nth_append
      split: val.splits if_splits option.splits obj.splits)

lemma list_at_append: "list_at h c = Some xs \<Longrightarrow> list_at (h @ [ob]) c = Some xs"
  by (auto simp: list_at_def obj_at_def nth_append
      split: val.splits if_splits option.splits obj.splits)

lemma dict_at_fresh: "dict_at (h @ [ODict kvs]) (VRef (length h)) = Some kvs"
  by (simp add: dict_at_def obj_at_def)

lemma py_in_key: "dict_at h c = Some kvs \<Longrightarrow> py_in env h (VStr k) c = Some (dict_has kvs k)"
  by (auto simp: py_in_def dict_at_def obj_at_def
      split: val.splits if_splits option.splits obj.splits)

lemma py_iter_keys:
  "dict_at h c = Some kvs \<Longrightarrow> py_iter h c = Some (map (\<lambda>kv. VStr (fst kv)) kvs)"
  by (auto simp: py_iter_def dict_at_def obj_at_def
      split: val.splits if_splits option.splits obj.splits)

lemma py_getitem_key:
  "dict_at h c = Some kvs \<Longrightarrow> py_getitem h c (VStr k) = dict_get kvs k"
  by (auto simp: py_getitem_def dict_at_def obj_at_def
      split: val.splits if_splits option.splits obj.splits)

lemma conflict_loop:
  assumes "getitem_str h merged ''properties'' = Some mp" and "dict_at h mp = Some mkvs"
  shows "heap t = h \<Longrightarrow>
         for_each (map (\<lambda>kv. VStr (fst kv)) pkvs) (\<lambda>prop.
            bnd (eval (\<lambda>h. getitem_str h merged ''properties'')) (\<lambda>mp.
            bnd (eval (\<lambda>h. py_in env h prop mp)) (\<lambda>conflict.
              if conflict
              then emit (Diag ''Add-in property conflicts with existing property'' [prop, use] [])
              else ret ()))) t
         = Ok () (t\<lparr>errors := errors t @
              map (\<lambda>k. Diag ''Add-in property conflicts with existing property'' [VStr k, use] [])
                (filter (dict_has mkvs) (map fst pkvs))\<rparr>)"
proof (induction pkvs arbitrary: t)
  case Nil
  then show ?case by (simp add: monad_defs)
next
  case (Cons kv pkvs)
  from Cons.prems assms have step: "\<And>e. heap (t\<lparr>errors := e\<rparr>) = h" by simp
  show ?case
    using Cons.prems assms Cons.IH[OF step] Cons.IH[OF Cons.prems]
    by (simp add: monad_defs py_in_key)
qed

lemma merge_addin_props_result:
  assumes addin: "dict_at (heap t) addin = Some akvs"
    and props: "dict_get akvs ''properties'' = Some ap" "dict_at (heap t) ap = Some pkvs"
    and merged: "getitem_str (heap t) merged ''properties'' = Some (VRef a)"
      "dict_at (heap t) (VRef a) = Some mkvs"
  shows "merge_addin_props env merged use addin t
       = Ok () (t\<lparr>heap := (heap t)[a := ODict (dict_update mkvs pkvs)],
                  errors := errors t @
                    map (\<lambda>k. Diag ''Add-in property conflicts with existing property''
                                [VStr k, use] [])
                      (filter (dict_has mkvs) (map fst pkvs))\<rparr>)"
proof -
  note loop = conflict_loop[OF merged, of t pkvs env use, OF refl]
  show ?thesis
    unfolding merge_addin_props_def
    using addin props merged
    by (simp add: bnd_def seq_def eval_def peek_def ret_def py_iter_keys loop update_from_def
        store_dict_def)
qed


lemma dict_at_update_other: "c \<noteq> VRef a \<Longrightarrow> dict_at (h[a := ob]) c = dict_at h c"
  by (cases c) (simp_all add: dict_at_def obj_at_def)

lemma list_at_update_other: "c \<noteq> VRef a \<Longrightarrow> list_at (h[a := ob]) c = list_at h c"
  by (cases c) (simp_all add: list_at_def obj_at_def)

lemma dict_at_update_same: "a < length h \<Longrightarrow> dict_at (h[a := ODict kvs]) (VRef a) = Some kvs"
  by (simp add: dict_at_def obj_at_def)

lemma list_at_update_dict: "list_at (h[a := ODict kvs]) (VRef a) = None"
  by (simp add: list_at_def obj_at_def)

lemma merge_pass:
  assumes ht: "heap t = H[a := ODict cur]" and a: "a < length H"
    and m: "dict_at H merged = Some skvs" "merged \<noteq> VRef a"
    and p: "dict_get skvs ''properties'' = Some (VRef a)"
    and ps: "addin_props (heap t) resolved = Some ps"
  shows "merge_if_dict env merged use resolved t
         = Ok () (t\<lparr>heap := H[a := ODict (dict_update cur ps)],
                    errors := errors t @ conflicts cur ps use\<rparr>)"
    and "dict_at (heap t) resolved \<noteq> None \<Longrightarrow>
         merge_addin_props env merged use resolved t
         = Ok () (t\<lparr>heap := H[a := ODict (dict_update cur ps)],
                    errors := errors t @ conflicts cur ps use\<rparr>)"
proof -
  have mt: "dict_at (heap t) merged = Some skvs"
    using m ht by (simp add: dict_at_update_other)
  have gp: "getitem_str (heap t) merged ''properties'' = Some (VRef a)"
    using mt p by (simp add: getitem_str_def)
  have ca: "dict_at (heap t) (VRef a) = Some cur"
    using ht a by (simp add: dict_at_update_same)
  have same: "t\<lparr>heap := H[a := ODict cur], errors := errors t\<rparr> = t"
    using ht by simp
  have main: "merge_addin_props env merged use resolved t
         = Ok () (t\<lparr>heap := H[a := ODict (dict_update cur ps)],
                    errors := errors t @ conflicts cur ps use\<rparr>)"
    if d: "dict_at (heap t) resolved = Some rkvs" for rkvs
  proof (cases "dict_get rkvs ''properties''")
    case None
    with ps d have e: "ps = []" by (simp add: addin_props_def)
    show ?thesis
      unfolding merge_addin_props_def
      using d None gp ca same
      by (simp add: e bnd_def seq_def eval_def ret_def update_from_def conflicts_def
          dict_update_def)
  next
    case (Some pv)
    with ps d have pd: "dict_at (heap t) pv = Some ps" by (simp add: addin_props_def)
    show ?thesis
      using merge_addin_props_result[OF d Some pd gp ca, of env use] ht
      by (simp add: conflicts_def)
  qed
  show "merge_if_dict env merged use resolved t
         = Ok () (t\<lparr>heap := H[a := ODict (dict_update cur ps)],
                    errors := errors t @ conflicts cur ps use\<rparr>)"
  proof (cases "dict_at (heap t) resolved")
    case None
    with ps have e: "ps = []" by (simp add: addin_props_def)
    show ?thesis
      unfolding merge_if_dict_def
      using None same
      by (simp add: e bnd_def peek_def ret_def is_dict_def conflicts_def dict_update_def)
  next
    case (Some rkvs)
    from main[OF Some] Some show ?thesis
      unfolding merge_if_dict_def by (simp add: bnd_def peek_def is_dict_def)
  qed
  show "merge_addin_props env merged use resolved t
         = Ok () (t\<lparr>heap := H[a := ODict (dict_update cur ps)],
                    errors := errors t @ conflicts cur ps use\<rparr>)"
    if "dict_at (heap t) resolved \<noteq> None"
    using that main by auto
qed


lemma merge_steps_append:
  "merge_steps cur (xs @ ys)
   = (case merge_steps cur xs of
        (mid, d1) \<Rightarrow> (case merge_steps mid ys of (fin, d2) \<Rightarrow> (fin, d1 @ d2)))"
  by (induction xs arbitrary: cur) (auto split: prod.splits)

lemma those_map_all2:
  "those (map f xs) = Some ys \<Longrightarrow> list_all2 (\<lambda>x y. f x = Some y) xs ys"
  by (induction xs arbitrary: ys) (auto split: option.splits)

text \<open>The loop over the references of an add-in given as a list.\<close>

lemma refs_loop:
  assumes a: "a < length H"
    and m: "dict_at H merged = Some skvs" "merged \<noteq> VRef a"
    and p: "dict_get skvs ''properties'' = Some (VRef a)"
  shows "list_all2 (\<lambda>ref ps. \<forall>kvs'. addin_props (H[a := ODict kvs'])
                                    (resolved_ref (H[a := ODict kvs']) root ref) = Some ps)
           refs pss \<Longrightarrow>
         heap t = H[a := ODict cur] \<Longrightarrow>
         for_each refs (\<lambda>ref.
            bnd (case ref of VStr r \<Rightarrow> peek (\<lambda>h. resolve_ref h root r) | _ \<Rightarrow> ret ref)
              (merge_if_dict env merged use)) t
         = Ok () (t\<lparr>heap := H[a := ODict (fst (merge_steps cur (map (Pair use) pss)))],
                    errors := errors t @ snd (merge_steps cur (map (Pair use) pss))\<rparr>)"
proof (induction refs pss arbitrary: cur t rule: list_all2_induct)
  case Nil
  then show ?case by (simp add: ret_def)
next
  case (Cons ref refs ps pss)
  let ?res = "resolved_ref (heap t) root ref"
  from Cons.hyps(1) Cons.prems have ps: "addin_props (heap t) ?res = Some ps"
    by simp
  have rd: "(case ref of VStr r \<Rightarrow> peek (\<lambda>h. resolve_ref h root r) | _ \<Rightarrow> ret ref) t
            = Ok ?res t"
    by (cases ref) (simp_all add: resolved_ref_def peek_def ret_def)
  let ?t1 = "t\<lparr>heap := H[a := ODict (dict_update cur ps)],
               errors := errors t @ conflicts cur ps use\<rparr>"
  have pass: "merge_if_dict env merged use ?res t = Ok () ?t1"
    using Cons.prems a m p ps by (rule merge_pass(1))
  have h1: "heap ?t1 = H[a := ODict (dict_update cur ps)]" by simp
  from Cons.IH[OF h1] rd pass show ?case
    by (simp add: bnd_def split: prod.splits)
qed


text \<open>One pass of the loop over the names.\<close>

lemma use_pass:
  assumes a: "a < length H"
    and m: "dict_at H merged = Some skvs" "merged \<noteq> VRef a"
    and p: "dict_get skvs ''properties'' = Some (VRef a)"
    and stable: "\<forall>kvs'. use_props (H[a := ODict kvs']) root off name = Some pss"
    and ht: "heap t = H[a := ODict cur]"
  shows "apply_use env root (Some off) merged (VStr name) t
         = Ok () (t\<lparr>heap := H[a := ODict (fst (merge_steps cur (map (Pair (VStr name)) pss)))],
                    errors := errors t @ snd (merge_steps cur (map (Pair (VStr name)) pss))\<rparr>)"
proof -
  from stable ht have now: "use_props (heap t) root off name = Some pss"
    by simp
  then obtain okvs addin where off: "dict_at (heap t) off = Some okvs"
    and offered: "dict_get okvs name = Some addin"
    by (auto simp: use_props_def split: option.splits)
  have in_off: "py_in_default env (heap t) (VStr name) (Some off) = Some True"
    using off offered by (simp add: py_in_default_def py_in_key dict_has_def dict_get_def)
  have item: "py_getitem (heap t) off (VStr name) = Some addin"
    using off offered by (simp add: py_getitem_key)
  show ?thesis
  proof (cases "list_at (heap t) addin")
    case (Some refs)
    have off_a: "off \<noteq> VRef a"
    proof
      assume "off = VRef a"
      with a have "dict_at (H[a := ODict []]) off = Some []"
        by (simp add: dict_at_update_same)
      then have "use_props (H[a := ODict []]) root off name = None"
        by (simp add: use_props_def dict_get_def)
      with stable show False by simp
    qed
    have addin_a: "addin \<noteq> VRef a"
      using Some ht by (auto simp: list_at_update_dict)
    have all: "list_all2 (\<lambda>ref ps. \<forall>kvs'. addin_props (H[a := ODict kvs'])
                                    (resolved_ref (H[a := ODict kvs']) root ref) = Some ps)
                 refs pss"
    proof -
      have each: "list_all2 (\<lambda>ref ps. addin_props (H[a := ODict kvs'])
                                    (resolved_ref (H[a := ODict kvs']) root ref) = Some ps)
                 refs pss" for kvs'
      proof -
        have o: "dict_at (H[a := ODict kvs']) off = Some okvs"
          using off off_a ht by (simp add: dict_at_update_other)
        have l: "list_at (H[a := ODict kvs']) addin = Some refs"
          using Some addin_a ht by (simp add: list_at_update_other)
        from stable have "use_props (H[a := ODict kvs']) root off name = Some pss"
          by simp
        with o offered l have
          "those (map (\<lambda>ref. addin_props (H[a := ODict kvs'])
                         (resolved_ref (H[a := ODict kvs']) root ref)) refs) = Some pss"
          by (simp add: use_props_def)
        then show ?thesis by (rule those_map_all2)
      qed
      then show ?thesis
        by (simp add: list_all2_conv_all_nth)
    qed
    note loop = refs_loop[OF a m p all ht, of env "VStr name"]
    show ?thesis
      unfolding apply_use_def
      using in_off item Some loop
      by (simp add: bnd_def eval_def peek_def)
  next
    case None
    with now off offered obtain akvs where ad: "dict_at (heap t) addin = Some akvs"
      by (auto simp: use_props_def split: option.splits)
    show ?thesis
    proof (cases "dict_get akvs ''$ref''")
      case nr: None
      with now off offered None ad obtain ps where pss: "pss = [ps]"
        and ps: "addin_props (heap t) addin = Some ps"
        by (auto simp: use_props_def)
      have d: "dict_at (heap t) addin \<noteq> None" using ad by simp
      note pass = merge_pass(2)[OF ht a m p ps d, of env "VStr name"]
      show ?thesis
        unfolding apply_use_def
        using in_off item None ad nr pass
        by (simp add: bnd_def eval_def peek_def pss)
    next
      case (Some rv)
      with now off offered None ad obtain r ps where rv: "rv = VStr r" and pss: "pss = [ps]"
        and ps: "addin_props (heap t) (resolve_ref (heap t) root r) = Some ps"
        by (auto simp: use_props_def split: val.splits)
      note pass = merge_pass(1)[OF ht a m p ps, of env "VStr name"]
      show ?thesis
        unfolding apply_use_def
        using in_off item None ad Some rv pass
        by (simp add: bnd_def eval_def peek_def pss resolve_ref_val_def)
    qed
  qed
qed


text \<open>The loop over the names that are not reserved.\<close>

lemma names_loop:
  assumes a: "a < length H"
    and m: "dict_at H merged = Some skvs" "merged \<noteq> VRef a"
    and p: "dict_get skvs ''properties'' = Some (VRef a)"
  shows "list_all2 (\<lambda>n pss. \<forall>kvs'. use_props (H[a := ODict kvs']) root off n = Some pss)
           names psss \<Longrightarrow>
         heap t = H[a := ODict cur] \<Longrightarrow>
         for_each (map VStr names) (apply_use env root (Some off) merged) t
         = Ok () (t\<lparr>heap := H[a := ODict (fst (merge_steps cur (addin_steps names psss)))],
                    errors := errors t @ snd (merge_steps cur (addin_steps names psss))\<rparr>)"
proof (induction names psss arbitrary: cur t rule: list_all2_induct)
  case Nil
  then show ?case by (simp add: ret_def addin_steps_def)
next
  case (Cons n names pss psss)
  let ?one = "merge_steps cur (map (Pair (VStr n)) pss)"
  let ?t1 = "t\<lparr>heap := H[a := ODict (fst ?one)], errors := errors t @ snd ?one\<rparr>"
  have pass: "apply_use env root (Some off) merged (VStr n) t = Ok () ?t1"
    using a m p Cons.hyps(1) Cons.prems by (rule use_pass)
  have h1: "heap ?t1 = H[a := ODict (fst ?one)]" by simp
  have st: "addin_steps (n # names) (pss # psss)
            = map (Pair (VStr n)) pss @ addin_steps names psss"
    by (simp add: addin_steps_def)
  from Cons.IH[OF h1] pass show ?case
    by (simp add: bnd_def st merge_steps_append split: prod.splits)
qed

lemma not_reserved_names:
  "filter (\<lambda>u. \<not> is_reserved u) (map VStr ns)
   = map VStr (filter (\<lambda>n. n \<notin> set RESERVED_ADDINS) ns)"
  by (induction ns) (simp_all add: is_reserved_def)

lemma fst_merge_steps_Cons:
  "fst (merge_steps cur (st # rest)) = fst (merge_steps (dict_update cur (snd st)) rest)"
  by (simp split: prod.splits)

lemma snd_merge_steps_Cons:
  "snd (merge_steps cur (st # rest))
   = conflicts cur (snd st) (fst st) @ snd (merge_steps (dict_update cur (snd st)) rest)"
  by (simp split: prod.splits)

lemma fst_merge_steps_append:
  "fst (merge_steps cur (xs @ ys)) = fst (merge_steps (fst (merge_steps cur xs)) ys)"
  by (simp add: merge_steps_append split: prod.splits)

lemma snd_merge_steps_append:
  "snd (merge_steps cur (xs @ ys))
   = snd (merge_steps cur xs) @ snd (merge_steps (fst (merge_steps cur xs)) ys)"
  by (simp add: merge_steps_append split: prod.splits)

lemma merge_steps_keeps:
  "\<forall>st \<in> set post. dict_get (snd st) k = None \<Longrightarrow>
   dict_get (fst (merge_steps cur post)) k = dict_get cur k"
proof (induction post arbitrary: cur)
  case Nil
  show ?case by simp
next
  case (Cons st post)
  then have n: "map_of (snd st) k = None" by (simp add: dict_get_def)
  then have "k \<notin> fst ` set (snd st)" by (simp add: map_of_eq_None_iff)
  then have "map_of (rev (snd st)) k = None" by (simp add: map_of_eq_None_iff)
  then have "dict_get (dict_update cur (snd st)) k = dict_get cur k"
    by (simp add: dict_get_def dict_update_map map_add_def)
  moreover have "dict_get (fst (merge_steps (dict_update cur (snd st)) post)) k
                 = dict_get (dict_update cur (snd st)) k"
    using Cons.prems by (intro Cons.IH) simp
  ultimately show ?case by (simp only: fst_merge_steps_Cons)
qed

lemma merge_steps_wins:
  assumes "distinct (map fst ps)" and "dict_get ps k = Some v"
    and "\<forall>st \<in> set post. dict_get (snd st) k = None"
  shows "dict_get (fst (merge_steps cur (pre @ (use, ps) # post))) k = Some v"
proof -
  have "dict_get (dict_update (fst (merge_steps cur pre)) ps) k = Some v"
    using assms(1,2) by (simp add: dict_update_get)
  with merge_steps_keeps[OF assms(3), of "dict_update (fst (merge_steps cur pre)) ps"]
  show ?thesis
    by (simp only: fst_merge_steps_append fst_merge_steps_Cons snd_conv)
qed

lemma merge_steps_conflict:
  assumes "dict_has (fst (merge_steps cur pre)) k" and "k \<in> fst ` set ps"
  shows "Diag ''Add-in property conflicts with existing property'' [VStr k, use] []
         \<in> set (snd (merge_steps cur (pre @ (use, ps) # post)))"
proof -
  have "Diag ''Add-in property conflicts with existing property'' [VStr k, use] []
        \<in> set (conflicts (fst (merge_steps cur pre)) ps use)"
    using assms by (auto simp: conflicts_def)
  then show ?thesis
    by (simp add: snd_merge_steps_append snd_merge_steps_Cons del: merge_steps.simps)
qed

text \<open>
  Claim C1 says that the properties of every offered add-in are merged and that on a
  conflict the existing property wins. In the example of the test
  \<open>test_uses_addin_conflict\<close> the schema's \<open>extra\<close> is a string and the add-in's \<open>extra\<close>
  is a number: \<open>_apply_uses\<close> reports the conflict, and then
  \<open>merged["properties"].update(addin_props)\<close> stores the add-in's schema under \<open>extra\<close>,
  so the whole validation accepts \<open>"extra": 123\<close> and returns the conflict diagnostic only.
  And an add-in offered as a pointer is not merged at all: the branches of \<open>_apply_uses\<close>
  read an array or an object, and for the string the validation returns
  \<open>Invalid add-in definition\<close>.
\<close>

theorem addin_property_replaces_existing:
  "effective_properties (heap conflict_state) (VRef 7)
     = Some [(''main'', VRef 0), (''extra'', VRef 1)]
   \<and> dict_at (heap conflict_state) (VRef 1) = Some [(''type'', VStr ''string'')]
   \<and> (case apply_uses env0 (VRef 7) (VRef 7) (VRef 9) conflict_state of
         Ok merged s' \<Rightarrow>
           errors s' = [Diag ''Add-in property conflicts with existing property''
                          [VStr ''extra'', VStr ''Extra''] []]
           \<and> effective_properties (heap s') merged
             = Some [(''main'', VRef 0), (''extra'', VRef 3)]
           \<and> dict_at (heap s') (VRef 3) = Some [(''type'', VStr ''number'')]
       | _ \<Rightarrow> False)
   \<and> returned (run_validate 3 env0 conflict_schema conflict_instance)
     = Some [Diag ''Add-in property conflicts with existing property''
               [VStr ''extra'', VStr ''Extra''] []]
   \<and> returned (run_validate 3 env0 addins_schema bare_instance)
     = Some [Diag ''Invalid add-in definition'' [VStr ''Bare''] []]"
  by code_simp

text \<open>
  Claim C1 as the code has it. The instance's \<open>$uses\<close> is a list of names; \<open>names\<close> are
  those that are not reserved, in order. Each of them is offered in \<open>$offers\<close> as an array
  (of pointers or objects), as an object with \<open>$ref\<close> or as an object, and \<open>psss\<close> lists for
  each name the property entries of the schemas it stands for; these are read the same
  whatever the schema's \<open>properties\<close> dictionary holds. The schema has \<open>properties\<close> with
  the entries \<open>mkvs\<close>. Then \<open>_apply_uses\<close> returns an effective schema that has the
  entries of the schema outside \<open>properties\<close>, and its \<open>properties\<close> are the result of
  merging the add-ins' properties into \<open>mkvs\<close> one after the other, each one stored over
  what is there; the buffer grows by one conflict diagnostic for every property name of an
  add-in that is there when the add-in is merged. Of such merges: a property that an
  add-in brings is what the effective schema holds under its name unless a later add-in
  brings the name again, whether or not the name existed before (the add-in wins); and a name
  that exists when the add-in is merged has its conflict diagnostic in the buffer.
\<close>

theorem apply_uses_addin_wins:
  assumes inst: "dict_at (heap s) instance = Some ikvs"
    and uses: "dict_get ikvs ''$uses'' = Some u" "list_at (heap s) u = Some (map VStr ns)"
      "ns \<noteq> []"
    and root: "dict_at (heap s) root = Some rkvs" "dict_get rkvs ''$offers'' = Some off"
    and schema: "dict_at (heap s) schema = Some skvs"
      "dict_get skvs ''properties'' = Some (VRef a)" "dict_at (heap s) (VRef a) = Some mkvs"
    and names: "names = filter (\<lambda>n. n \<notin> set RESERVED_ADDINS) ns"
    and offered: "list_all2
        (\<lambda>n pss. \<forall>kvs'. use_props ((heap s @ [ODict skvs])[a := ODict kvs']) root off n = Some pss)
        names psss"
  shows "(case apply_uses env root schema instance s of
            Ok merged s' \<Rightarrow>
              effective_properties (heap s') merged
                = Some (fst (merge_steps mkvs (addin_steps names psss)))
              \<and> errors s' = errors s @ snd (merge_steps mkvs (addin_steps names psss))
              \<and> map_option (\<lambda>kvs. dict_del kvs ''properties'') (dict_at (heap s') merged)
                = Some (dict_del skvs ''properties'')
          | _ \<Rightarrow> False)
       \<and> (distinct (map fst ps) \<and> dict_get ps k = Some v
            \<and> (\<forall>st \<in> set post. dict_get (snd st) k = None) \<longrightarrow>
            dict_get (fst (merge_steps cur (pre @ (use, ps) # post))) k = Some v)
       \<and> (dict_has (fst (merge_steps cur pre)) k \<and> k \<in> fst ` set ps \<longrightarrow>
            Diag ''Add-in property conflicts with existing property'' [VStr k, use] []
            \<in> set (snd (merge_steps cur (pre @ (use, ps) # post))))"
proof -
  let ?H = "heap s @ [ODict skvs]"
  let ?m = "VRef (length (heap s))"
  let ?t = "s\<lparr>heap := ?H\<rparr>"
  let ?r = "merge_steps mkvs (addin_steps names psss)"
  from schema(3) obtain la: "a < length (heap s)" and oa: "heap s ! a = ODict mkvs"
    by (auto dest: dict_at_obj)
  have a: "a < length ?H" using la by simp
  have m: "dict_at ?H ?m = Some skvs" "?m \<noteq> VRef a"
    using la by (simp_all add: dict_at_fresh)
  have id: "(heap s)[a := ODict mkvs] = heap s"
    using oa list_update_id[of "heap s" a] by simp
  have ht: "heap ?t = ?H[a := ODict mkvs]"
    using la id by (simp add: list_update_append1)
  note loop = names_loop[OF a m schema(2) offered ht, of env]
  have truthy: "truthy env (heap s) u"
    using uses(2,3)
    by (auto simp: truthy_def list_at_def obj_at_def
        split: val.splits option.splits obj.splits if_splits)
  have has: "dict_has skvs ''properties''"
    using schema(2) by (simp add: dict_has_def dict_get_def)
  have run: "apply_uses env root schema instance s
         = Ok ?m (s\<lparr>heap := ?H[a := ODict (fst ?r)], errors := errors s @ snd ?r\<rparr>)"
    unfolding apply_uses_def
    using inst uses truthy root schema(1) has loop
    by (simp add: bnd_def seq_def eval_def peek_def ret_def alloc_def not_reserved_names names)
  have mm: "dict_at (?H[a := ODict (fst ?r)]) ?m = Some skvs"
    using m by (simp add: dict_at_update_other)
  have eff: "effective_properties (?H[a := ODict (fst ?r)]) ?m = Some (fst ?r)"
    using mm schema(2) a by (simp add: effective_properties_def getitem_str_def dict_at_update_same)
  have first: "(case apply_uses env root schema instance s of
            Ok merged s' \<Rightarrow>
              effective_properties (heap s') merged = Some (fst ?r)
              \<and> errors s' = errors s @ snd ?r
              \<and> map_option (\<lambda>kvs. dict_del kvs ''properties'') (dict_at (heap s') merged)
                = Some (dict_del skvs ''properties'')
          | _ \<Rightarrow> False)"
    using run mm eff by simp
  from first merge_steps_wins[of ps k v post cur pre use]
    merge_steps_conflict[of cur pre k ps use post]
  show ?thesis by blast
qed

text \<open>The schema that offers add-ins in every form: \<open>Extra\<close> replaces the string schema of
  \<open>extra\<close>, \<open>More\<close> replaces it again and adds \<open>more\<close>, \<open>Ref\<close> replaces \<open>more\<close>; the reserved
  name is passed over; three conflicts are reported.\<close>

theorem apply_uses_addin_wins_witness:
  "(case apply_uses env0 (VRef 17) (VRef 17) (VRef 19) addins_state of
      Ok merged s' \<Rightarrow>
        effective_properties (heap s') merged
          = Some [(''main'', VRef 0), (''extra'', VRef 10), (''more'', VRef 13)]
        \<and> errors s'
          = [Diag ''Add-in property conflicts with existing property''
               [VStr ''extra'', VStr ''Extra''] [],
             Diag ''Add-in property conflicts with existing property''
               [VStr ''extra'', VStr ''More''] [],
             Diag ''Add-in property conflicts with existing property''
               [VStr ''more'', VStr ''Ref''] []]
    | _ \<Rightarrow> False)"
proof -
  define skvs where "skvs = [(''type'', VStr ''object''), (''properties'', VRef 2),
                             (''$offers'', VRef 8), (''definitions'', VRef 16)]"
  define ikvs where "ikvs = [(''main'', VStr ''hello''), (''$uses'', VRef 18),
                             (''extra'', VBool True), (''more'', VBool True)]"
  define mkvs where "mkvs = [(''main'', VRef 0), (''extra'', VRef 1)]"
  define ns where "ns = [''Extra'', ''JSONStructureValidation'', ''More'', ''Ref'']"
  define psss where "psss = [[[(''extra'', VRef 3)]],
                             [[(''more'', VRef 9), (''extra'', VRef 10)]],
                             [[(''more'', VRef 13)]]]"
  have inst: "dict_at (heap addins_state) (VRef 19) = Some ikvs"
    unfolding ikvs_def by code_simp
  have u: "dict_get ikvs ''$uses'' = Some (VRef 18)"
    unfolding ikvs_def by code_simp
  have ul: "list_at (heap addins_state) (VRef 18) = Some (map VStr ns)"
    unfolding ns_def by code_simp
  have ne: "ns \<noteq> []"
    unfolding ns_def by simp
  have root: "dict_at (heap addins_state) (VRef 17) = Some skvs"
    unfolding skvs_def by code_simp
  have offers: "dict_get skvs ''$offers'' = Some (VRef 8)"
    unfolding skvs_def by code_simp
  have sprops: "dict_get skvs ''properties'' = Some (VRef 2)"
    unfolding skvs_def by code_simp
  have mp: "dict_at (heap addins_state) (VRef 2) = Some mkvs"
    unfolding mkvs_def by code_simp
  have names: "[''Extra'', ''More'', ''Ref''] = filter (\<lambda>n. n \<notin> set RESERVED_ADDINS) ns"
    unfolding ns_def by code_simp
  have p1: "use_props ((heap addins_state @ [ODict skvs])[2 := ODict kvs']) (VRef 17) (VRef 8)
              ''Extra'' = Some [[(''extra'', VRef 3)]]" for kvs'
    unfolding skvs_def by code_simp
  have p2: "use_props ((heap addins_state @ [ODict skvs])[2 := ODict kvs']) (VRef 17) (VRef 8)
              ''More'' = Some [[(''more'', VRef 9), (''extra'', VRef 10)]]" for kvs'
    unfolding skvs_def by code_simp
  have p3: "use_props ((heap addins_state @ [ODict skvs])[2 := ODict kvs']) (VRef 17) (VRef 8)
              ''Ref'' = Some [[(''more'', VRef 13)]]" for kvs'
    unfolding skvs_def by code_simp
  have offered: "list_all2
        (\<lambda>n pss. \<forall>kvs'. use_props ((heap addins_state @ [ODict skvs])[2 := ODict kvs'])
                           (VRef 17) (VRef 8) n = Some pss)
        [''Extra'', ''More'', ''Ref''] psss"
    unfolding psss_def using p1 p2 p3 by simp
  have ev: "merge_steps mkvs (addin_steps [''Extra'', ''More'', ''Ref''] psss)
            = ([(''main'', VRef 0), (''extra'', VRef 10), (''more'', VRef 13)],
               [Diag ''Add-in property conflicts with existing property''
                  [VStr ''extra'', VStr ''Extra''] [],
                Diag ''Add-in property conflicts with existing property''
                  [VStr ''extra'', VStr ''More''] [],
                Diag ''Add-in property conflicts with existing property''
                  [VStr ''more'', VStr ''Ref''] []])"
    unfolding psss_def mkvs_def by code_simp
  have e: "errors addins_state = []"
    by (simp add: addins_state_def)
  from apply_uses_addin_wins [OF inst u ul ne root offers root sprops mp names offered,
      of env0, THEN conjunct1]
  show ?thesis
    by (simp add: ev e split: res.splits)
qed

end
